theory Spec2Isabelle
  imports Main "HOL-Library.Sublist"
begin

section \<open>Data model (types.ts)\<close>

text \<open>
  JavaScript strings are modelled as \<open>string\<close>; a \<open>char\<close> stands for a UTF-16 code
  unit below 0x100. Optional properties (\<open>snippet?\<close>, \<open>response.text\<close>) are \<open>option\<close>s,
  with \<open>None\<close> for \<open>undefined\<close>.
\<close>

record SearchResult =
  title :: string
  uri :: string
  snippet :: "string option"

record SearchResponse =
  summary :: string
  sources :: "SearchResult list"
  actualQuery :: string

datatype AppStatus =
  IDLE | TWEAKING | ANALYZING | SEARCHING | SYNTHESIZING | GENERATING_AUDIO | PLAYING | ERROR

section \<open>JavaScript string primitives used by the sources\<close>

text \<open>Line terminators of ECMAScript (LF, CR); U+2028 and U+2029 lie outside the modelled range.\<close>

definition isLineTerminator :: "char \<Rightarrow> bool" where
  "isLineTerminator c \<longleftrightarrow> c = CHR 0x0A \<or> c = CHR 0x0D"

text \<open>The class \<open>\s\<close> and the characters removed by \<open>String.prototype.trim\<close>:
  TAB, VT, FF, SP, NBSP and the line terminators.\<close>

definition isWhiteSpace :: "char \<Rightarrow> bool" where
  "isWhiteSpace c \<longleftrightarrow>
     c = CHR 0x09 \<or> c = CHR 0x0B \<or> c = CHR 0x0C \<or> c = CHR 0x20 \<or> c = CHR 0xA0 \<or> isLineTerminator c"

definition trim :: "string \<Rightarrow> string" where
  "trim s = rev (dropWhile isWhiteSpace (rev (dropWhile isWhiteSpace s)))"

text \<open>Canonicalisation of the \<open>/i\<close> flag (no \<open>/u\<close>): a code unit is upper-cased, and a
  non-ASCII unit never canonicalises to an ASCII one, so against an ASCII pattern only
  the ASCII letters fold.\<close>

definition canonicalize :: "char \<Rightarrow> char" where
  "canonicalize c =
     (let n = (of_char c :: nat) in if 97 \<le> n \<and> n \<le> 122 then char_of (n - 32) else c)"

text \<open>Matching a literal pattern case-insensitively at the start of the input; the result
  is the input left after the literal.\<close>

fun matchLiteral :: "string \<Rightarrow> string \<Rightarrow> string option" where
  "matchLiteral [] s = Some s"
| "matchLiteral (p # ps) [] = None"
| "matchLiteral (p # ps) (c # cs) =
     (if canonicalize c = canonicalize p then matchLiteral ps cs else None)"

text \<open>\<open>String(n)\<close> for a non-negative integer: its decimal digits.\<close>

definition digit :: "nat \<Rightarrow> char" where
  "digit d = char_of (48 + d)"

fun toString :: "nat \<Rightarrow> string" where
  "toString n = (if n < 10 then [digit n] else toString (n div 10) @ [digit (n mod 10)])"

declare toString.simps [simp del]

text \<open>Reading a number back from its decimal digits.\<close>

fun fromDigits :: "nat \<Rightarrow> string \<Rightarrow> nat" where
  "fromDigits acc [] = acc"
| "fromDigits acc (c # cs) = fromDigits (10 * acc + (of_char c - 48)) cs"

section \<open>services/geminiService.ts: searchAndSummarize\<close>

text \<open>What the backend returns for one \<open>generateContent\<close> call, as far as the service reads it:
  \<open>response.text\<close> and \<open>response.candidates?.[0]?.groundingMetadata?.groundingChunks\<close>.\<close>

record Web =
  web_title :: "string option"
  web_uri :: "string option"

record Chunk =
  web :: "Web option"

record GenResponse =
  response_text :: "string option"
  groundingChunks :: "Chunk list option"

definition QUERY_USED :: string where
  "QUERY_USED = ''QUERY_USED:''"

text \<open>\<open>fullText.match(/QUERY_USED:\s*(.*)/i)\<close>: the leftmost position where the literal
  matches; there the greedy \<open>\s*\<close> takes all white space (line terminators included) and
  the greedy \<open>(.*)\<close> the rest of the line, with no backtracking since nothing follows.
  The result is capture group 1, \<open>None\<close> for a \<open>null\<close> match.\<close>

fun queryMatch :: "string \<Rightarrow> string option" where
  "queryMatch [] = None"
| "queryMatch (c # cs) =
     (case matchLiteral QUERY_USED (c # cs) of
        Some rest \<Rightarrow> Some (takeWhile (\<lambda>x. \<not> isLineTerminator x) (dropWhile isWhiteSpace rest))
      | None \<Rightarrow> queryMatch cs)"

text \<open>\<open>\s*.*$\<close> against the input left after the literal: some white-space prefix is taken
  by \<open>\s*\<close>, and what follows must reach the end of the input (no \<open>/m\<close> flag) without a
  line terminator.\<close>

fun matchTail :: "string \<Rightarrow> bool" where
  "matchTail [] = True"
| "matchTail (c # cs) =
     (list_all (\<lambda>x. \<not> isLineTerminator x) (c # cs) \<or> (isWhiteSpace c \<and> matchTail cs))"

text \<open>\<open>fullText.replace(/QUERY_USED:\s*.*$/i, '')\<close>: the leftmost position where the whole
  pattern matches is cut off together with everything after it (the match always ends at
  the end of the input); without a match the text is returned as it is.\<close>

fun replaceQueryUsed :: "string \<Rightarrow> string" where
  "replaceQueryUsed [] = []"
| "replaceQueryUsed (c # cs) =
     (case matchLiteral QUERY_USED (c # cs) of
        Some rest \<Rightarrow> if matchTail rest then [] else c # replaceQueryUsed cs
      | None \<Rightarrow> c # replaceQueryUsed cs)"

text \<open>The \<open>forEach\<close> over the grounding chunks: a chunk is pushed when \<open>chunk.web\<close> and
  \<open>chunk.web.uri\<close> are truthy; its title defaults to \<open>"Source"\<close>.\<close>

fun pushSources :: "Chunk list \<Rightarrow> SearchResult list" where
  "pushSources [] = []"
| "pushSources (chunk # chunks) =
     (case web chunk of
        None \<Rightarrow> pushSources chunks
      | Some w \<Rightarrow>
          (case web_uri w of
             None \<Rightarrow> pushSources chunks
           | Some u \<Rightarrow>
               if u = [] then pushSources chunks
               else \<lparr>title = (case web_title w of
                                 None \<Rightarrow> ''Source''
                               | Some t \<Rightarrow> if t = [] then ''Source'' else t),
                     uri = u, snippet = None\<rparr> # pushSources chunks))"

text \<open>\<open>Array.prototype.findIndex\<close>: the first index whose element satisfies the
  predicate, \<open>-1\<close> when there is none.\<close>

fun findIndex :: "('a \<Rightarrow> bool) \<Rightarrow> 'a list \<Rightarrow> int" where
  "findIndex p [] = -1"
| "findIndex p (x # xs) =
     (if p x then 0 else (let r = findIndex p xs in if r < 0 then -1 else r + 1))"

text \<open>\<open>Array.prototype.filter\<close> with the callback's three arguments \<open>(v, i, a)\<close>: the
  array \<open>a\<close> is fixed, \<open>i\<close> is the index of the head of the part still to visit.\<close>

fun filterFrom :: "('a \<Rightarrow> nat \<Rightarrow> 'a list \<Rightarrow> bool) \<Rightarrow> 'a list \<Rightarrow> nat \<Rightarrow> 'a list \<Rightarrow> 'a list" where
  "filterFrom p a i [] = []"
| "filterFrom p a i (v # vs) =
     (if p v i a then v # filterFrom p a (Suc i) vs else filterFrom p a (Suc i) vs)"

definition uniqueSources :: "SearchResult list \<Rightarrow> SearchResult list" where
  "uniqueSources srcs =
     filterFrom (\<lambda>v i a. findIndex (\<lambda>t. uri t = uri v) a = int i) srcs 0 srcs"

text \<open>The spec's words for the citation list: deduplicated by URI, the first occurrence
  wins, the original relative order is kept.\<close>

fun dedupFirst :: "SearchResult list \<Rightarrow> SearchResult list" where
  "dedupFirst [] = []"
| "dedupFirst (x # xs) = x # dedupFirst (filter (\<lambda>t. uri t \<noteq> uri x) xs)"

text \<open>The URI a chunk carries, if any: \<open>chunk.web?.uri\<close>.\<close>

definition chunkUri :: "Chunk \<Rightarrow> string option" where
  "chunkUri chunk = (case web chunk of None \<Rightarrow> None | Some w \<Rightarrow> web_uri w)"

text \<open>The body of \<open>searchAndSummarize\<close> after the backend call has resolved.\<close>

definition summarize :: "string \<Rightarrow> GenResponse \<Rightarrow> SearchResponse" where
  "summarize q response =
     (let fullText = (case response_text response of None \<Rightarrow> [] | Some t \<Rightarrow> t);
          srcs = (case groundingChunks response of None \<Rightarrow> [] | Some chunks \<Rightarrow> pushSources chunks)
      in case queryMatch fullText of
           None \<Rightarrow> \<lparr>summary = fullText, sources = uniqueSources srcs, actualQuery = q\<rparr>
         | Some g \<Rightarrow> \<lparr>summary = trim (replaceQueryUsed fullText),
                      sources = uniqueSources srcs, actualQuery = trim g\<rparr>)"

section \<open>services/geminiService.ts: the remote calls\<close>

text \<open>A thrown value is an object whose \<open>message\<close> may be absent.\<close>

datatype JsError = JsError (message: "string option")

text \<open>The decoded buffer is opaque to the orchestrator; \<open>services/audio.ts\<close> is not among
  the sources, so decoding (\<open>decodeBase64\<close> followed by \<open>decodeAudioData\<close>) is a parameter
  of the model.\<close>

datatype AudioBuffer = AudioBuffer nat

text \<open>Everything outside the program that one handler invocation meets: the answers of the
  backend to each \<open>generateContent\<close> call (a rejection is \<open>Inl\<close>), the result of decoding
  a payload, and the clock read by \<open>Date.now()\<close>.\<close>

record Remote =
  searchBackend :: "string \<Rightarrow> JsError + GenResponse"
  speechBackend :: "string \<Rightarrow> JsError + string option"
  tweakBackend :: "string \<Rightarrow> JsError + string option"
  refineBackend :: "string \<Rightarrow> string \<Rightarrow> JsError + string option"
  randomBackend :: "JsError + string option"
  decodeAudio :: "string \<Rightarrow> JsError + AudioBuffer"
  dateNow :: nat

definition searchAndSummarize :: "Remote \<Rightarrow> string \<Rightarrow> JsError + SearchResponse" where
  "searchAndSummarize r q =
     (case searchBackend r q of Inl err \<Rightarrow> Inl err | Inr response \<Rightarrow> Inr (summarize q response))"

definition generateSpeech :: "Remote \<Rightarrow> string \<Rightarrow> JsError + string" where
  "generateSpeech r txt =
     (case speechBackend r txt of
        Inl err \<Rightarrow> Inl err
      | Inr None \<Rightarrow> Inl (JsError (Some ''Audio generation failed.''))
      | Inr (Some audioData) \<Rightarrow>
          if audioData = [] then Inl (JsError (Some ''Audio generation failed.''))
          else Inr audioData)"

text \<open>\<open>response.text?.trim() || fallback\<close>\<close>

definition trimOr :: "string option \<Rightarrow> string \<Rightarrow> string" where
  "trimOr t fallback = (case t of None \<Rightarrow> fallback | Some x \<Rightarrow> if trim x = [] then fallback else trim x)"

definition generateRandomPrompt :: "Remote \<Rightarrow> JsError + string" where
  "generateRandomPrompt r =
     (case randomBackend r of Inl err \<Rightarrow> Inl err | Inr t \<Rightarrow> Inr (trimOr t ''Why is the sky blue?''))"

definition tweakQuery :: "Remote \<Rightarrow> string \<Rightarrow> JsError + string" where
  "tweakQuery r q = (case tweakBackend r q of Inl err \<Rightarrow> Inl err | Inr t \<Rightarrow> Inr (trimOr t q))"

definition refineQuery :: "Remote \<Rightarrow> string \<Rightarrow> string \<Rightarrow> JsError + string" where
  "refineQuery r originalQuery currentSummary =
     (case refineBackend r originalQuery currentSummary of
        Inl err \<Rightarrow> Inl err
      | Inr t \<Rightarrow> Inr (trimOr t (originalQuery @ '' in detail'')))"

section \<open>App.tsx: the session state\<close>

record HistoryItem =
  h_id :: string
  h_query :: string
  h_results :: SearchResponse

datatype RemoteCall =
  CallSearchAndSummarize string
| CallGenerateSpeech string
| CallTweakQuery string
| CallRefineQuery string string
| CallGenerateRandomPrompt

text \<open>The \<open>useState\<close> cells and the two refs of the component. \<open>audioContext\<close> tells whether
  the shared context has been created, \<open>currentSource\<close> holds the buffer of the node in
  \<open>currentSourceRef\<close>. \<open>remoteCalls\<close> is not a cell of the program: it records, in order,
  the calls issued to the backend, so that statements about them can be made.\<close>

record AppState =
  query :: string
  status :: AppStatus
  results :: "SearchResponse option"
  error :: "string option"
  logs :: "string list"
  playbackFinished :: bool
  isLuckyLoading :: bool
  history :: "HistoryItem list"
  isSidebarOpen :: bool
  audioContext :: bool
  currentSource :: "AudioBuffer option"
  remoteCalls :: "RemoteCall list"

definition initialState :: AppState where
  "initialState =
     \<lparr>query = [], status = IDLE, results = None, error = None, logs = [],
      playbackFinished = False, isLuckyLoading = False, history = [], isSidebarOpen = True,
      audioContext = False, currentSource = None, remoteCalls = []\<rparr>"

definition quoted :: "string \<Rightarrow> string" where
  "quoted s = [CHR 0x22] @ s @ [CHR 0x22]"

definition addLog :: "string \<Rightarrow> AppState \<Rightarrow> AppState" where
  "addLog msg s = s\<lparr>logs := logs s @ [msg]\<rparr>"

definition call :: "RemoteCall \<Rightarrow> AppState \<Rightarrow> AppState" where
  "call c s = s\<lparr>remoteCalls := remoteCalls s @ [c]\<rparr>"

definition isSearching :: "AppState \<Rightarrow> bool" where
  "isSearching s \<longleftrightarrow> status s \<noteq> IDLE \<and> status s \<noteq> PLAYING \<and> status s \<noteq> ERROR"

text \<open>\<open>stopAudio\<close> reads \<open>status\<close> from the render it was created in; every caller invokes it
  before any \<open>setStatus\<close> of its own, so that is the status of the state it is applied to.\<close>

definition stopAudio :: "AppState \<Rightarrow> AppState" where
  "stopAudio s =
     (let s' = (case currentSource s of None \<Rightarrow> s | Some node \<Rightarrow> s\<lparr>currentSource := None\<rparr>)
      in if status s = PLAYING then s'\<lparr>status := IDLE\<rparr> else s')"

text \<open>The callback registered as \<open>source.onended\<close>.\<close>

definition onended :: "AppState \<Rightarrow> AppState" where
  "onended s =
     addLog ''Playback finished.''
       (s\<lparr>status := IDLE, currentSource := None, playbackFinished := True\<rparr>)"

section \<open>App.tsx: performSearchFlow\<close>

text \<open>The flow is cut at its \<open>setStatus\<close> calls and its \<open>await\<close>s; each part below is the
  code from one cut to the next, in source order. The 600 ms pause between the first two
  parts changes no cell and is left out. The flow reads no cell of the component: it is
  given the query and writes through the setters only.\<close>

definition phaseAnalyzing :: "string \<Rightarrow> AppState \<Rightarrow> AppState" where
  "phaseAnalyzing searchQuery s =
     (let s = s\<lparr>error := None\<rparr>;
          s = s\<lparr>playbackFinished := False\<rparr>;
          s = s\<lparr>status := ANALYZING\<rparr>
      in addLog (''Analyzing request: '' @ quoted searchQuery) s)"

definition phaseSearching :: "string \<Rightarrow> AppState \<Rightarrow> AppState" where
  "phaseSearching searchQuery s =
     (let s = s\<lparr>status := SEARCHING\<rparr>;
          s = addLog ''Consulting Google Search for real-time information...'' s
      in call (CallSearchAndSummarize searchQuery) s)"

text \<open>The entry built under \<open>// Add to history\<close>.\<close>

definition newItem :: "Remote \<Rightarrow> string \<Rightarrow> SearchResponse \<Rightarrow> HistoryItem" where
  "newItem r searchQuery searchRes =
     \<lparr>h_id = toString (dateNow r), h_query = searchQuery, h_results = searchRes\<rparr>"

definition phaseSynthesizing :: "Remote \<Rightarrow> string \<Rightarrow> SearchResponse \<Rightarrow> AppState \<Rightarrow> AppState" where
  "phaseSynthesizing r searchQuery searchRes s =
     (let s = addLog (''Found '' @ toString (length (sources searchRes)) @ '' relevant sources.'') s;
          s = addLog (''Model used search term: '' @ quoted (actualQuery searchRes)) s;
          s = s\<lparr>status := SYNTHESIZING\<rparr>;
          s = addLog ''Synthesizing search results into concise summary...'' s;
          s = s\<lparr>results := Some searchRes\<rparr>
      in s\<lparr>history := newItem r searchQuery searchRes # take 19 (history s)\<rparr>)"

definition phaseGeneratingAudio :: "SearchResponse \<Rightarrow> AppState \<Rightarrow> AppState" where
  "phaseGeneratingAudio searchRes s =
     (let s = s\<lparr>status := GENERATING_AUDIO\<rparr>;
          s = addLog ''Converting summary to speech using Gemini TTS...'' s
      in call (CallGenerateSpeech (summary searchRes)) s)"

definition phasePlaying :: "AppState \<Rightarrow> AppState" where
  "phasePlaying s =
     (let s = s\<lparr>status := PLAYING\<rparr>;
          s = addLog ''Playing audio summary.'' s
      in s\<lparr>audioContext := True\<rparr>)"

definition startSource :: "AudioBuffer \<Rightarrow> AppState \<Rightarrow> AppState" where
  "startSource audioBuffer s = s\<lparr>currentSource := Some audioBuffer\<rparr>"

text \<open>The \<open>catch\<close> block: \<open>err.message || 'Search failed. Please try again.'\<close> for the error
  cell, and the template string (which prints an absent message as \<open>undefined\<close>) for the log.\<close>

definition flowCatch :: "JsError \<Rightarrow> AppState \<Rightarrow> AppState" where
  "flowCatch err s =
     (let s = s\<lparr>error := Some (case message err of
                                  None \<Rightarrow> ''Search failed. Please try again.''
                                | Some m \<Rightarrow> if m = [] then ''Search failed. Please try again.'' else m)\<rparr>;
          s = s\<lparr>status := ERROR\<rparr>
      in addLog (''Error: '' @ (case message err of None \<Rightarrow> ''undefined'' | Some m \<Rightarrow> m)) s)"

text \<open>The states the flow passes through, one after each part, ending with the state the
  flow leaves behind.\<close>

definition flowTrace :: "Remote \<Rightarrow> string \<Rightarrow> AppState \<Rightarrow> AppState list" where
  "flowTrace r searchQuery s =
     (let s1 = phaseAnalyzing searchQuery s;
          s2 = phaseSearching searchQuery s1
      in case searchAndSummarize r searchQuery of
           Inl err \<Rightarrow> [s1, s2, flowCatch err s2]
         | Inr searchRes \<Rightarrow>
             (let s3 = phaseSynthesizing r searchQuery searchRes s2;
                  s4 = phaseGeneratingAudio searchRes s3
              in case generateSpeech r (summary searchRes) of
                   Inl err \<Rightarrow> [s1, s2, s3, s4, flowCatch err s4]
                 | Inr audioBase64 \<Rightarrow>
                     (let s5 = phasePlaying s4
                      in case decodeAudio r audioBase64 of
                           Inl err \<Rightarrow> [s1, s2, s3, s4, s5, flowCatch err s5]
                         | Inr audioBuffer \<Rightarrow> [s1, s2, s3, s4, s5, startSource audioBuffer s5])))"

definition performSearchFlow :: "Remote \<Rightarrow> string \<Rightarrow> AppState \<Rightarrow> AppState" where
  "performSearchFlow r searchQuery s = last (flowTrace r searchQuery s)"

section \<open>App.tsx: the handlers\<close>

definition handleSearch :: "Remote \<Rightarrow> AppState \<Rightarrow> AppState" where
  "handleSearch r s =
     (if trim (query s) = [] \<or> (status s \<noteq> IDLE \<and> status s \<noteq> ERROR) then s
      else (let s' = s\<lparr>results := None\<rparr>;
                s' = s'\<lparr>logs := []\<rparr>;
                s' = stopAudio s'
            in performSearchFlow r (query s) s'))"

definition handleWorkshop :: "Remote \<Rightarrow> AppState \<Rightarrow> AppState" where
  "handleWorkshop r s =
     (if trim (query s) = [] \<or> isSearching s \<or> isLuckyLoading s then s
      else (let s' = s\<lparr>results := None\<rparr>;
                s' = s'\<lparr>logs := []\<rparr>;
                s' = stopAudio s';
                s' = s'\<lparr>status := TWEAKING\<rparr>;
                s' = addLog (''Gemini Workshop is optimizing your prompt: '' @ quoted (query s) @ ''...'') s';
                s' = call (CallTweakQuery (query s)) s'
            in case tweakQuery r (query s) of
                 Inr tweaked \<Rightarrow>
                   (let s' = s'\<lparr>query := tweaked\<rparr>;
                        s' = addLog (''Workshop output: '' @ quoted tweaked) s'
                    in performSearchFlow r tweaked s')
               | Inl err \<Rightarrow>
                   (let s' = addLog ''Workshop failed to optimize the prompt.'' s';
                        s' = s'\<lparr>error := Some ''Workshop optimization failed.''\<rparr>
                    in s'\<lparr>status := ERROR\<rparr>)))"

definition handleFeelingLucky :: "Remote \<Rightarrow> AppState \<Rightarrow> AppState" where
  "handleFeelingLucky r s =
     (if isLuckyLoading s \<or> isSearching s then s
      else (let s' = s\<lparr>isLuckyLoading := True\<rparr>;
                s' = s'\<lparr>results := None\<rparr>;
                s' = s'\<lparr>logs := []\<rparr>;
                s' = stopAudio s';
                s' = addLog ''Gemini is brainstorming a unique topic for you...'' s';
                s' = call CallGenerateRandomPrompt s'
            in case generateRandomPrompt r of
                 Inr randomPrompt \<Rightarrow>
                   (let s' = s'\<lparr>query := randomPrompt\<rparr>;
                        s' = addLog (''Inspired query: '' @ quoted randomPrompt) s';
                        s' = s'\<lparr>isLuckyLoading := False\<rparr>
                    in performSearchFlow r randomPrompt s')
               | Inl err \<Rightarrow>
                   (let s' = addLog ''Failed to generate a random prompt.'' s';
                        s' = s'\<lparr>isLuckyLoading := False\<rparr>;
                        s' = s'\<lparr>error := Some ''Inspiration failed. Please try a manual search.''\<rparr>
                    in s'\<lparr>status := ERROR\<rparr>)))"

definition handleFindMore :: "Remote \<Rightarrow> AppState \<Rightarrow> AppState" where
  "handleFindMore r s =
     (case results s of
        None \<Rightarrow> s
      | Some res \<Rightarrow>
          (let original = query s;
               currentSummary = summary res;
               s' = s\<lparr>status := ANALYZING\<rparr>;
               s' = addLog ''Generating a deeper research query...'' s';
               s' = call (CallRefineQuery original currentSummary) s'
           in case refineQuery r original currentSummary of
                Inr deeperQuery \<Rightarrow>
                  (let s' = s'\<lparr>query := deeperQuery\<rparr>;
                       s' = addLog (''New exploration path: '' @ quoted deeperQuery) s'
                   in performSearchFlow r deeperQuery s')
              | Inl err \<Rightarrow>
                  (let s' = s'\<lparr>error := Some ''Failed to generate a deeper query.''\<rparr>
                   in s'\<lparr>status := ERROR\<rparr>)))"

definition handleGoBack :: "AppState \<Rightarrow> AppState" where
  "handleGoBack s =
     (let s = stopAudio s;
          s = s\<lparr>results := None\<rparr>;
          s = s\<lparr>status := IDLE\<rparr>;
          s = s\<lparr>logs := []\<rparr>
      in s\<lparr>playbackFinished := False\<rparr>)"

definition handleHistoryClick :: "HistoryItem \<Rightarrow> AppState \<Rightarrow> AppState" where
  "handleHistoryClick item s =
     (let s = stopAudio s;
          s = s\<lparr>results := Some (h_results item)\<rparr>;
          s = s\<lparr>query := h_query item\<rparr>;
          s = s\<lparr>logs := [''Restored search results for: '' @ quoted (h_query item)]\<rparr>;
          s = s\<lparr>status := IDLE\<rparr>
      in s\<lparr>playbackFinished := True\<rparr>)"

text \<open>The \<open>onClick\<close> of the Replay button (and of the retry button of the error card):
  \<open>() => performSearchFlow(query)\<close>.\<close>

definition replay :: "Remote \<Rightarrow> AppState \<Rightarrow> AppState" where
  "replay r s = performSearchFlow r (query s) s"

text \<open>The render conditions of the buttons that invoke \<open>handleWorkshop\<close> and
  \<open>handleFindMore\<close>: \<open>!results && !isSearching && !error && !isLuckyLoading && status === IDLE\<close>
  and \<open>playbackFinished && results && status === IDLE\<close>.\<close>

definition workshopShown :: "AppState \<Rightarrow> bool" where
  "workshopShown s \<longleftrightarrow>
     results s = None \<and> \<not> isSearching s \<and> (error s = None \<or> error s = Some [])
     \<and> \<not> isLuckyLoading s \<and> status s = IDLE"

definition findMoreShown :: "AppState \<Rightarrow> bool" where
  "findMoreShown s \<longleftrightarrow> playbackFinished s \<and> results s \<noteq> None \<and> status s = IDLE"

text \<open>The entry points as the component offers them. Search is the \<open>onSubmit\<close> of the
  form, which is rendered in every state, so it always reaches \<open>handleSearch\<close>. The
  Workshop button sits in the block rendered under \<open>workshopShown\<close> and is
  \<open>disabled={!query.trim()}\<close>; the FindMore button is rendered under \<open>findMoreShown\<close>.
  These two buttons are the only references to \<open>handleWorkshop\<close> and \<open>handleFindMore\<close>;
  a button that is not rendered, or is disabled, delivers no click.\<close>

definition searchEntry :: "Remote \<Rightarrow> AppState \<Rightarrow> AppState" where
  "searchEntry r s = handleSearch r s"

definition workshopEntry :: "Remote \<Rightarrow> AppState \<Rightarrow> AppState" where
  "workshopEntry r s =
     (if workshopShown s \<and> trim (query s) \<noteq> [] then handleWorkshop r s else s)"

definition findMoreEntry :: "Remote \<Rightarrow> AppState \<Rightarrow> AppState" where
  "findMoreEntry r s = (if findMoreShown s then handleFindMore r s else s)"

section \<open>Sessions\<close>

text \<open>What can happen to the component: the user's actions and the \<open>ended\<close> event of a
  source node. Each handler is run to its end before the next event is taken (no other
  handler runs between its \<open>await\<close>s), with the backend answers it meets given alongside.\<close>

datatype Action =
  Search | Workshop | FeelingLucky | FindMore | GoBack | HistoryClick HistoryItem
| Stop | Replay | Ended | Type string | ToggleSidebar

fun step :: "Remote \<Rightarrow> Action \<Rightarrow> AppState \<Rightarrow> AppState" where
  "step r Search s = handleSearch r s"
| "step r Workshop s = handleWorkshop r s"
| "step r FeelingLucky s = handleFeelingLucky r s"
| "step r FindMore s = handleFindMore r s"
| "step r GoBack s = handleGoBack s"
| "step r (HistoryClick item) s = handleHistoryClick item s"
| "step r Stop s = stopAudio s"
| "step r Replay s = replay r s"
| "step r Ended s = onended s"
| "step r (Type v) s = s\<lparr>query := v\<rparr>"
| "step r ToggleSidebar s = s\<lparr>isSidebarOpen := \<not> isSidebarOpen s\<rparr>"

fun run :: "(Remote \<times> Action) list \<Rightarrow> AppState \<Rightarrow> AppState" where
  "run [] s = s"
| "run ((r, a) # evs) s = run evs (step r a s)"

text \<open>Core flows run one after the other, each with its own backend answers and query.\<close>

fun runFlows :: "(Remote \<times> string) list \<Rightarrow> AppState \<Rightarrow> AppState" where
  "runFlows [] s = s"
| "runFlows ((r, q) # fs) s = runFlows fs (performSearchFlow r q s)"

text \<open>A flow succeeds end to end when the search, the speech generation and the decoding
  all succeed.\<close>

definition flowSucceeds :: "Remote \<times> string \<Rightarrow> bool" where
  "flowSucceeds f =
     (case searchAndSummarize (fst f) (snd f) of
        Inl err \<Rightarrow> False
      | Inr searchRes \<Rightarrow>
          (case generateSpeech (fst f) (summary searchRes) of
             Inl err \<Rightarrow> False
           | Inr audioBase64 \<Rightarrow>
               (case decodeAudio (fst f) audioBase64 of Inl err \<Rightarrow> False | Inr audioBuffer \<Rightarrow> True)))"

text \<open>The history entry a flow builds, if its search succeeds.\<close>

definition flowEntry :: "Remote \<times> string \<Rightarrow> HistoryItem option" where
  "flowEntry f =
     (case searchAndSummarize (fst f) (snd f) of
        Inl err \<Rightarrow> None
      | Inr searchRes \<Rightarrow> Some (newItem (fst f) (snd f) searchRes))"

section \<open>Example inputs\<close>

definition webChunk :: "string \<Rightarrow> Chunk" where
  "webChunk u = \<lparr>web = Some \<lparr>web_title = None, web_uri = Some u\<rparr>\<rparr>"

definition catsResponse :: GenResponse where
  "catsResponse =
     \<lparr>response_text = Some (''Cats purr.'' @ [CHR 0x0A] @ ''QUERY_USED: cats''),
      groundingChunks = Some [webChunk ''a'', webChunk ''b'', webChunk ''a'']\<rparr>"

definition catsResult :: SearchResponse where
  "catsResult =
     \<lparr>summary = ''Cats purr.'',
      sources = [\<lparr>title = ''Source'', uri = ''a'', snippet = None\<rparr>,
                 \<lparr>title = ''Source'', uri = ''b'', snippet = None\<rparr>],
      actualQuery = ''cats''\<rparr>"

text \<open>A backend on which every call succeeds, one that returns no audio payload, one whose
  payload does not decode, and one whose search is rejected.\<close>

definition remoteOk :: Remote where
  "remoteOk =
     \<lparr>searchBackend = (\<lambda>q. Inr catsResponse),
      speechBackend = (\<lambda>t. Inr (Some ''UklGRg=='')),
      tweakBackend = (\<lambda>q. Inr (Some ''cat purring physiology'')),
      refineBackend = (\<lambda>q t. Inr None),
      randomBackend = Inr None,
      decodeAudio = (\<lambda>a. Inr (AudioBuffer 4)),
      dateNow = 1700\<rparr>"

definition remoteNoAudio :: Remote where
  "remoteNoAudio = remoteOk\<lparr>speechBackend := (\<lambda>t. Inr None)\<rparr>"

definition remoteBadAudio :: Remote where
  "remoteBadAudio = remoteOk\<lparr>decodeAudio := (\<lambda>a. Inl (JsError (Some ''Unable to decode audio data'')))\<rparr>"

definition remoteDown :: Remote where
  "remoteDown = remoteOk\<lparr>searchBackend := (\<lambda>q. Inl (JsError (Some ''Failed to fetch'')))\<rparr>"

text \<open>A session in which the user has typed \<open>cats\<close>, searched, and listened to the end: it
  is idle and shows the result. From there, a replay while it waits for the search, and
  the replay once it plays.\<close>

definition shownState :: AppState where
  "shownState = run [(remoteOk, Type ''cats''), (remoteOk, Search), (remoteOk, Ended)] initialState"

definition busyState :: AppState where
  "busyState = flowTrace remoteOk ''cats'' shownState ! 1"

definition playingState :: AppState where
  "playingState = replay remoteOk shownState"

text \<open>Twenty-one successful flows, one per second, searching for \<open>"0"\<close>, \<open>"1"\<close>, ...\<close>

definition flows21 :: "(Remote \<times> string) list" where
  "flows21 = map (\<lambda>n. (remoteOk\<lparr>dateNow := 1700 + 1000 * n\<rparr>, toString n)) [0..<21]"

section \<open>The marker line\<close>

lemma matchLiteral_QUERY_USED_Nil: "matchLiteral QUERY_USED [] = None"
  by (simp add: QUERY_USED_def)

text \<open>Positions before the first occurrence of the marker are passed over by both regular
  expressions.\<close>

lemma queryMatch_skip:
  "\<forall>i<length pre. matchLiteral QUERY_USED (drop i (pre @ rest0)) = None \<Longrightarrow>
   queryMatch (pre @ rest0) = queryMatch rest0"
proof (induction pre)
  case Nil
  then show ?case by simp
next
  case (Cons c pre)
  from Cons.prems have here: "matchLiteral QUERY_USED (c # pre @ rest0) = None"
    by force
  have "\<forall>i<length pre. matchLiteral QUERY_USED (drop i (pre @ rest0)) = None"
  proof (intro allI impI)
    fix i
    assume "i < length pre"
    then have "Suc i < length (c # pre)"
      by simp
    with Cons.prems have "matchLiteral QUERY_USED (drop (Suc i) ((c # pre) @ rest0)) = None"
      by blast
    then show "matchLiteral QUERY_USED (drop i (pre @ rest0)) = None"
      by simp
  qed
  then have "queryMatch (pre @ rest0) = queryMatch rest0"
    by (rule Cons.IH)
  with here show ?case
    by simp
qed

lemma replaceQueryUsed_skip:
  "\<forall>i<length pre. matchLiteral QUERY_USED (drop i (pre @ rest0)) = None \<Longrightarrow>
   replaceQueryUsed (pre @ rest0) = pre @ replaceQueryUsed rest0"
proof (induction pre)
  case Nil
  then show ?case by simp
next
  case (Cons c pre)
  from Cons.prems have here: "matchLiteral QUERY_USED (c # pre @ rest0) = None"
    by force
  have "\<forall>i<length pre. matchLiteral QUERY_USED (drop i (pre @ rest0)) = None"
  proof (intro allI impI)
    fix i
    assume "i < length pre"
    then have "Suc i < length (c # pre)"
      by simp
    with Cons.prems have "matchLiteral QUERY_USED (drop (Suc i) ((c # pre) @ rest0)) = None"
      by blast
    then show "matchLiteral QUERY_USED (drop i (pre @ rest0)) = None"
      by simp
  qed
  then have "replaceQueryUsed (pre @ rest0) = pre @ replaceQueryUsed rest0"
    by (rule Cons.IH)
  with here show ?case
    by simp
qed

lemma queryMatch_here:
  assumes "matchLiteral QUERY_USED rest0 = Some rest"
  shows "queryMatch rest0 =
    Some (takeWhile (\<lambda>x. \<not> isLineTerminator x) (dropWhile isWhiteSpace rest))"
proof (cases rest0)
  case Nil
  with assms show ?thesis
    by (simp add: matchLiteral_QUERY_USED_Nil)
next
  case (Cons c cs)
  with assms show ?thesis
    by simp
qed

lemma matchTail_line: "list_all (\<lambda>x. \<not> isLineTerminator x) rest \<Longrightarrow> matchTail rest"
  by (cases rest) simp_all

lemma replaceQueryUsed_here:
  assumes "matchLiteral QUERY_USED rest0 = Some rest" and "matchTail rest"
  shows "replaceQueryUsed rest0 = []"
proof (cases rest0)
  case Nil
  then show ?thesis by simp
next
  case (Cons c cs)
  with assms show ?thesis
    by simp
qed

lemma trim_dropWhile: "trim (dropWhile isWhiteSpace s) = trim s"
  by (simp add: trim_def)

text \<open>Without any occurrence of the marker the first regular expression does not match.\<close>

lemma queryMatch_none:
  "\<forall>i<length s. matchLiteral QUERY_USED (drop i s) = None \<Longrightarrow> queryMatch s = None"
  using queryMatch_skip [of s "[]"] by simp

text \<open>
  What the code does with a marker, stated for the first occurrence (upper or lower case):
  when the first occurrence of \<open>QUERY_USED:\<close> in the text is followed by no line terminator
  up to the end of the text, \<open>actualQuery\<close> is what follows the marker, trimmed, and \<open>summary\<close>
  is what precedes it, trimmed. When the marker does not occur, \<open>actualQuery\<close> is the input
  query and \<open>summary\<close> the full text.
\<close>

lemma summarize_first_marker_trailing:
  assumes "matchLiteral QUERY_USED rest0 = Some rest"
    and "\<forall>i<length pre. matchLiteral QUERY_USED (drop i (pre @ rest0)) = None"
    and "list_all (\<lambda>x. \<not> isLineTerminator x) rest"
  shows "actualQuery (summarize q \<lparr>response_text = Some (pre @ rest0), groundingChunks = g\<rparr>) = trim rest"
    and "summary (summarize q \<lparr>response_text = Some (pre @ rest0), groundingChunks = g\<rparr>) = trim pre"
proof -
  have line: "list_all (\<lambda>x. \<not> isLineTerminator x) (dropWhile isWhiteSpace rest)"
    using assms(3) by (metis (mono_tags, lifting) list_all_iff set_dropWhileD)
  have "queryMatch (pre @ rest0) =
      Some (takeWhile (\<lambda>x. \<not> isLineTerminator x) (dropWhile isWhiteSpace rest))"
    using assms(1,2) by (simp add: queryMatch_skip queryMatch_here)
  also have "takeWhile (\<lambda>x. \<not> isLineTerminator x) (dropWhile isWhiteSpace rest) =
      dropWhile isWhiteSpace rest"
    using line by (simp add: list_all_iff)
  finally have m: "queryMatch (pre @ rest0) = Some (dropWhile isWhiteSpace rest)" .
  have r: "replaceQueryUsed (pre @ rest0) = pre"
    using assms by (simp add: replaceQueryUsed_skip replaceQueryUsed_here matchTail_line)
  show "actualQuery (summarize q \<lparr>response_text = Some (pre @ rest0), groundingChunks = g\<rparr>) = trim rest"
    by (simp add: summarize_def Let_def m trim_dropWhile)
  show "summary (summarize q \<lparr>response_text = Some (pre @ rest0), groundingChunks = g\<rparr>) = trim pre"
    by (simp add: summarize_def Let_def m r)
qed

lemma summarize_no_marker:
  assumes "\<forall>i<length t. matchLiteral QUERY_USED (drop i t) = None"
  shows "actualQuery (summarize q \<lparr>response_text = Some t, groundingChunks = g\<rparr>) = q"
    and "summary (summarize q \<lparr>response_text = Some t, groundingChunks = g\<rparr>) = t"
  using queryMatch_none [OF assms] by (simp_all add: summarize_def Let_def)

text \<open>
  Claim C5 on a response with two marker lines. The text below ends in the marker line
  \<open>QUERY_USED: history of Paris\<close>. \<open>match\<close> takes the first occurrence of the marker, so
  \<open>actualQuery\<close> is \<open>Paris history\<close>, the text of the earlier line; \<open>replace\<close>, anchored at the
  end of the text, cuts off the last marker line only, so the summary keeps the earlier
  marker line.
\<close>

theorem summarize_two_marker_lines:
  "summarize ''paris''
     \<lparr>response_text = Some (''Paris is old.'' @ [CHR 0x0A] @ ''QUERY_USED: Paris history''
                              @ [CHR 0x0A] @ ''QUERY_USED: history of Paris''),
      groundingChunks = None\<rparr> =
   \<lparr>summary = ''Paris is old.'' @ [CHR 0x0A] @ ''QUERY_USED: Paris history'',
    sources = [],
    actualQuery = ''Paris history''\<rparr>"
  by code_simp

section \<open>The citation list\<close>

lemma findIndex_miss: "\<forall>x\<in>set xs. \<not> p x \<Longrightarrow> findIndex p xs = - 1"
  by (induction xs) simp_all

lemma findIndex_range: "\<exists>x\<in>set xs. p x \<Longrightarrow> 0 \<le> findIndex p xs \<and> findIndex p xs < int (length xs)"
proof (induction xs)
  case Nil
  then show ?case by simp
next
  case (Cons x xs)
  show ?case
  proof (cases "p x")
    case True
    then show ?thesis by simp
  next
    case False
    with Cons.prems have "\<exists>x\<in>set xs. p x"
      by simp
    with Cons.IH False show ?thesis
      by (simp add: Let_def)
  qed
qed

lemma findIndex_append_hit: "\<exists>x\<in>set pre. p x \<Longrightarrow> findIndex p (pre @ ys) = findIndex p pre"
proof (induction pre)
  case Nil
  then show ?case by simp
next
  case (Cons x pre)
  show ?case
  proof (cases "p x")
    case True
    then show ?thesis by simp
  next
    case False
    with Cons.prems have "\<exists>x\<in>set pre. p x"
      by simp
    with Cons.IH False show ?thesis
      by simp
  qed
qed

lemma findIndex_append_miss:
  "\<forall>x\<in>set pre. \<not> p x \<Longrightarrow> p v \<Longrightarrow> findIndex p (pre @ v # vs) = int (length pre)"
  by (induction pre) (simp_all add: Let_def)

text \<open>An element is its own first match exactly when nothing before it matches.\<close>

lemma findIndex_own_position:
  assumes "p v"
  shows "findIndex p (pre @ v # vs) = int (length pre) \<longleftrightarrow> (\<forall>x\<in>set pre. \<not> p x)"
proof
  assume eq: "findIndex p (pre @ v # vs) = int (length pre)"
  show "\<forall>x\<in>set pre. \<not> p x"
  proof (rule ccontr)
    assume "\<not> (\<forall>x\<in>set pre. \<not> p x)"
    then have hit: "\<exists>x\<in>set pre. p x"
      by blast
    then have "findIndex p (pre @ v # vs) = findIndex p pre"
      by (rule findIndex_append_hit)
    moreover from hit have "findIndex p pre < int (length pre)"
      by (simp add: findIndex_range)
    ultimately show False
      using eq by simp
  qed
next
  assume "\<forall>x\<in>set pre. \<not> p x"
  with assms show "findIndex p (pre @ v # vs) = int (length pre)"
    by (simp add: findIndex_append_miss)
qed

lemma filterFrom_dedupFirst:
  "filterFrom (\<lambda>v i a. findIndex (\<lambda>t. uri t = uri v) a = int i) (pre @ vs) (length pre) vs =
     dedupFirst (filter (\<lambda>t. uri t \<notin> uri ` set pre) vs)"
proof (induction vs arbitrary: pre)
  case Nil
  then show ?case by simp
next
  case (Cons v vs)
  have "findIndex (\<lambda>t. uri t = uri v) (pre @ v # vs) = int (length pre) \<longleftrightarrow>
      (\<forall>x\<in>set pre. uri x \<noteq> uri v)"
    by (rule findIndex_own_position) simp
  also have "\<dots> \<longleftrightarrow> uri v \<notin> uri ` set pre"
    by (force simp add: image_iff)
  finally have own: "findIndex (\<lambda>t. uri t = uri v) (pre @ v # vs) = int (length pre) \<longleftrightarrow>
      uri v \<notin> uri ` set pre" .
  have rest: "filterFrom (\<lambda>v i a. findIndex (\<lambda>t. uri t = uri v) a = int i) (pre @ v # vs)
        (Suc (length pre)) vs =
      dedupFirst (filter (\<lambda>t. uri t \<notin> insert (uri v) (uri ` set pre)) vs)"
    using Cons.IH [of "pre @ [v]"] by simp
  show ?case
  proof (cases "uri v \<in> uri ` set pre")
    case True
    then have "insert (uri v) (uri ` set pre) = uri ` set pre"
      by (rule insert_absorb)
    with rest have "filterFrom (\<lambda>v i a. findIndex (\<lambda>t. uri t = uri v) a = int i) (pre @ v # vs)
        (Suc (length pre)) vs = dedupFirst (filter (\<lambda>t. uri t \<notin> uri ` set pre) vs)"
      by (simp only:)
    with True own show ?thesis
      by simp
  next
    case False
    have "filter (\<lambda>t. uri t \<noteq> uri v) (filter (\<lambda>t. uri t \<notin> uri ` set pre) vs) =
        filter (\<lambda>t. uri t \<notin> insert (uri v) (uri ` set pre)) vs"
      by (induction vs) simp_all
    with rest have "filterFrom (\<lambda>v i a. findIndex (\<lambda>t. uri t = uri v) a = int i) (pre @ v # vs)
        (Suc (length pre)) vs =
        dedupFirst (filter (\<lambda>t. uri t \<noteq> uri v) (filter (\<lambda>t. uri t \<notin> uri ` set pre) vs))"
      by (simp only:)
    with False own show ?thesis
      by (simp del: filter_filter)
  qed
qed

lemma uniqueSources_dedupFirst: "uniqueSources srcs = dedupFirst srcs"
  using filterFrom_dedupFirst [of "[]" srcs] by (simp add: uniqueSources_def)

lemma set_dedupFirst: "uri ` set (dedupFirst xs) = uri ` set xs"
  by (induction xs rule: dedupFirst.induct) auto

lemma distinct_dedupFirst: "distinct (map uri (dedupFirst xs))"
proof (induction xs rule: dedupFirst.induct)
  case 1
  then show ?case by simp
next
  case (2 x xs)
  have "uri x \<notin> uri ` set (filter (\<lambda>t. uri t \<noteq> uri x) xs)"
  proof
    assume "uri x \<in> uri ` set (filter (\<lambda>t. uri t \<noteq> uri x) xs)"
    then obtain t where "t \<in> set (filter (\<lambda>t. uri t \<noteq> uri x) xs)" and "uri x = uri t"
      by (rule imageE)
    then show False
      by simp
  qed
  then have "uri x \<notin> uri ` set (dedupFirst (filter (\<lambda>t. uri t \<noteq> uri x) xs))"
    by (simp add: set_dedupFirst)
  with 2 show ?case
    by simp
qed

lemma subseq_dedupFirst: "subseq (dedupFirst xs) xs"
proof (induction xs rule: dedupFirst.induct)
  case 1
  then show ?case by simp
next
  case (2 x xs)
  have "subseq (filter (\<lambda>t. uri t \<noteq> uri x) xs) xs"
    by (rule subseq_filter_left)
  with 2 have "subseq (dedupFirst (filter (\<lambda>t. uri t \<noteq> uri x) xs)) xs"
    by (rule subseq_order.trans)
  then show ?case
    by simp
qed

lemma find_filter_implied:
  "(\<And>x. p x \<Longrightarrow> q x) \<Longrightarrow> find p (filter q xs) = find p xs"
  by (induction xs) auto

lemma first_dedupFirst:
  "x \<in> set (dedupFirst xs) \<Longrightarrow> find (\<lambda>t. uri t = uri x) xs = Some x"
proof (induction xs rule: dedupFirst.induct)
  case 1
  then show ?case by simp
next
  case (2 y ys)
  show ?case
  proof (cases "x = y")
    case True
    then show ?thesis by simp
  next
    case False
    with "2.prems" have mem: "x \<in> set (dedupFirst (filter (\<lambda>t. uri t \<noteq> uri y) ys))"
      by simp
    then have "uri x \<in> uri ` set (filter (\<lambda>t. uri t \<noteq> uri y) ys)"
      by (metis imageI set_dedupFirst)
    then have ne: "uri x \<noteq> uri y"
      by auto
    from mem have "find (\<lambda>t. uri t = uri x) (filter (\<lambda>t. uri t \<noteq> uri y) ys) = Some x"
      by (rule "2.IH")
    moreover have "find (\<lambda>t. uri t = uri x) (filter (\<lambda>t. uri t \<noteq> uri y) ys) =
        find (\<lambda>t. uri t = uri x) ys"
      using ne by (intro find_filter_implied) simp
    ultimately show ?thesis
      using ne by simp
  qed
qed

lemma pushSources_Cons:
  "pushSources (c # cs) =
     (case chunkUri c of
        None \<Rightarrow> pushSources cs
      | Some u \<Rightarrow>
          if u = [] then pushSources cs
          else \<lparr>title = (case web_title (the (web c)) of
                            None \<Rightarrow> ''Source''
                          | Some t \<Rightarrow> if t = [] then ''Source'' else t),
                uri = u, snippet = None\<rparr> # pushSources cs)"
  by (simp add: chunkUri_def split: option.splits)

lemma set_pushSources:
  "uri ` set (pushSources chunks) = {u. u \<noteq> [] \<and> Some u \<in> chunkUri ` set chunks}"
proof (induction chunks)
  case Nil
  then show ?case by simp
next
  case (Cons c cs)
  define new where
    "new = (case chunkUri c of None \<Rightarrow> {} | Some u \<Rightarrow> if u = [] then {} else {u})"
  have "uri ` set (pushSources (c # cs)) = new \<union> uri ` set (pushSources cs)"
    by (cases "chunkUri c") (simp_all add: new_def pushSources_Cons del: pushSources.simps)
  also have "\<dots> = new \<union> {u. u \<noteq> [] \<and> Some u \<in> chunkUri ` set cs}"
    by (simp only: Cons.IH)
  also have "\<dots> = {u. u \<noteq> [] \<and> Some u \<in> chunkUri ` set (c # cs)}"
    by (cases "chunkUri c") (auto simp add: new_def)
  finally show ?case .
qed

lemma subseq_pushSources:
  "subseq (map (\<lambda>x. Some (uri x)) (pushSources chunks)) (map chunkUri chunks)"
proof (induction chunks)
  case Nil
  then show ?case by simp
next
  case (Cons c cs)
  then have skip: "subseq (map (\<lambda>x. Some (uri x)) (pushSources cs)) (chunkUri c # map chunkUri cs)"
    by (rule list_emb_Cons)
  show ?case
  proof (cases "chunkUri c")
    case None
    then have "pushSources (c # cs) = pushSources cs"
      by (simp add: pushSources_Cons del: pushSources.simps)
    with skip show ?thesis
      by (simp del: pushSources.simps)
  next
    case (Some u)
    show ?thesis
    proof (cases "u = []")
      case True
      with Some have "pushSources (c # cs) = pushSources cs"
        by (simp add: pushSources_Cons del: pushSources.simps)
      with skip show ?thesis
        by (simp del: pushSources.simps)
    next
      case False
      with Some have "map (\<lambda>x. Some (uri x)) (pushSources (c # cs)) =
          chunkUri c # map (\<lambda>x. Some (uri x)) (pushSources cs)"
        by (simp add: pushSources_Cons del: pushSources.simps)
      with Cons show ?thesis
        by (simp del: pushSources.simps)
    qed
  qed
qed

lemma sources_summarize:
  "sources (summarize q response) =
     uniqueSources (case groundingChunks response of None \<Rightarrow> [] | Some chunks \<Rightarrow> pushSources chunks)"
  by (simp add: summarize_def Let_def split: option.splits)

text \<open>
  Claim C6. For every list of citation chunks (and any response text and query), the
  sources of the SearchResponse are the pushed entries deduplicated by URI as the spec
  words it. Their URIs are exactly the non-empty URIs carried by the chunks, no URI occurs
  twice, they come in the order of the chunks, and each of them is the first pushed entry
  with its URI. The chunks with the URIs a, b, a yield the sources a, b.
\<close>

theorem sources_deduplicated:
  "sources (summarize q \<lparr>response_text = t, groundingChunks = Some chunks\<rparr>) =
     dedupFirst (pushSources chunks)
   \<and> uri ` set (sources (summarize q \<lparr>response_text = t, groundingChunks = Some chunks\<rparr>)) =
       {u. u \<noteq> [] \<and> Some u \<in> chunkUri ` set chunks}
   \<and> distinct (map uri (sources (summarize q \<lparr>response_text = t, groundingChunks = Some chunks\<rparr>)))
   \<and> subseq
        (map (\<lambda>x. Some (uri x)) (sources (summarize q \<lparr>response_text = t, groundingChunks = Some chunks\<rparr>)))
        (map chunkUri chunks)
   \<and> (\<forall>x \<in> set (sources (summarize q \<lparr>response_text = t, groundingChunks = Some chunks\<rparr>)).
         find (\<lambda>y. uri y = uri x) (pushSources chunks) = Some x)
   \<and> map uri (sources (summarize q
         \<lparr>response_text = t, groundingChunks = Some [webChunk ''a'', webChunk ''b'', webChunk ''a'']\<rparr>)) =
       [''a'', ''b'']"
proof -
  have s: "sources (summarize q \<lparr>response_text = t, groundingChunks = Some cs\<rparr>) =
      dedupFirst (pushSources cs)" for cs
    by (simp add: sources_summarize uniqueSources_dedupFirst)
  have order: "subseq (map (\<lambda>x. Some (uri x)) (dedupFirst (pushSources chunks))) (map chunkUri chunks)"
  proof -
    have "subseq (map (\<lambda>x. Some (uri x)) (dedupFirst (pushSources chunks)))
        (map (\<lambda>x. Some (uri x)) (pushSources chunks))"
      by (intro subseq_map subseq_dedupFirst)
    then show ?thesis
      using subseq_pushSources by (rule subseq_order.trans)
  qed
  have ex: "map uri (dedupFirst (pushSources [webChunk ''a'', webChunk ''b'', webChunk ''a''])) =
      [''a'', ''b'']"
    by (simp add: webChunk_def)
  show ?thesis
    unfolding s
    using order ex
    by (simp add: set_dedupFirst set_pushSources distinct_dedupFirst first_dedupFirst)
qed

theorem sources_deduplicated_witness:
  "sources (summarize ''cats'' catsResponse) =
     [\<lparr>title = ''Source'', uri = ''a'', snippet = None\<rparr>,
      \<lparr>title = ''Source'', uri = ''b'', snippet = None\<rparr>]
   \<and> \<lparr>title = ''Source'', uri = ''a'', snippet = None\<rparr> \<in> set (sources (summarize ''cats'' catsResponse))
   \<and> find (\<lambda>y. uri y = ''a'') (pushSources [webChunk ''a'', webChunk ''b'', webChunk ''a'']) =
        Some \<lparr>title = ''Source'', uri = ''a'', snippet = None\<rparr>"
  using sources_deduplicated
    [of "''cats''" "Some (''Cats purr.'' @ [CHR 0x0A] @ ''QUERY_USED: cats'')"
      "[webChunk ''a'', webChunk ''b'', webChunk ''a'']"]
  by (simp add: catsResponse_def webChunk_def)

section \<open>The parts of the flow, cell by cell\<close>

lemma phaseAnalyzing_fields:
  "logs (phaseAnalyzing q s) = logs s @ [''Analyzing request: '' @ quoted q]"
  "status (phaseAnalyzing q s) = ANALYZING"
  "results (phaseAnalyzing q s) = results s"
  "history (phaseAnalyzing q s) = history s"
  "remoteCalls (phaseAnalyzing q s) = remoteCalls s"
  by (simp_all add: phaseAnalyzing_def addLog_def Let_def)

lemma phaseSearching_fields:
  "logs (phaseSearching q s) = logs s @ [''Consulting Google Search for real-time information...'']"
  "status (phaseSearching q s) = SEARCHING"
  "results (phaseSearching q s) = results s"
  "history (phaseSearching q s) = history s"
  "remoteCalls (phaseSearching q s) = remoteCalls s @ [CallSearchAndSummarize q]"
  by (simp_all add: phaseSearching_def addLog_def call_def Let_def)

lemma phaseSynthesizing_fields:
  "logs (phaseSynthesizing r q res s) = logs s @
     [''Found '' @ toString (length (sources res)) @ '' relevant sources.'',
      ''Model used search term: '' @ quoted (actualQuery res),
      ''Synthesizing search results into concise summary...'']"
  "status (phaseSynthesizing r q res s) = SYNTHESIZING"
  "results (phaseSynthesizing r q res s) = Some res"
  "history (phaseSynthesizing r q res s) = newItem r q res # take 19 (history s)"
  "remoteCalls (phaseSynthesizing r q res s) = remoteCalls s"
  by (simp_all add: phaseSynthesizing_def addLog_def Let_def)

lemma phaseGeneratingAudio_fields:
  "logs (phaseGeneratingAudio res s) = logs s @ [''Converting summary to speech using Gemini TTS...'']"
  "status (phaseGeneratingAudio res s) = GENERATING_AUDIO"
  "results (phaseGeneratingAudio res s) = results s"
  "history (phaseGeneratingAudio res s) = history s"
  "remoteCalls (phaseGeneratingAudio res s) = remoteCalls s @ [CallGenerateSpeech (summary res)]"
  by (simp_all add: phaseGeneratingAudio_def addLog_def call_def Let_def)

lemma phasePlaying_fields:
  "logs (phasePlaying s) = logs s @ [''Playing audio summary.'']"
  "status (phasePlaying s) = PLAYING"
  "results (phasePlaying s) = results s"
  "history (phasePlaying s) = history s"
  "remoteCalls (phasePlaying s) = remoteCalls s"
  by (simp_all add: phasePlaying_def addLog_def Let_def)

lemma startSource_fields:
  "logs (startSource b s) = logs s"
  "status (startSource b s) = status s"
  "results (startSource b s) = results s"
  "history (startSource b s) = history s"
  "remoteCalls (startSource b s) = remoteCalls s"
  by (simp_all add: startSource_def)

lemma flowCatch_fields:
  "logs (flowCatch e s) =
     logs s @ [''Error: '' @ (case message e of None \<Rightarrow> ''undefined'' | Some m \<Rightarrow> m)]"
  "status (flowCatch e s) = ERROR"
  "results (flowCatch e s) = results s"
  "history (flowCatch e s) = history s"
  "remoteCalls (flowCatch e s) = remoteCalls s"
  by (simp_all add: flowCatch_def addLog_def Let_def)

lemma flowCatch_error:
  "error (flowCatch e s) =
     Some (case message e of
             None \<Rightarrow> ''Search failed. Please try again.''
           | Some m \<Rightarrow> if m = [] then ''Search failed. Please try again.'' else m)"
  by (simp add: flowCatch_def addLog_def Let_def)

text \<open>The \<open>catch\<close> block writes the error, the status and the log, and nothing else.\<close>

lemma flowCatch_frame:
  "(flowCatch e s)\<lparr>error := error s, status := status s, logs := logs s\<rparr> = s"
  by (simp add: flowCatch_def addLog_def Let_def)

lemmas phase_fields = phaseAnalyzing_fields phaseSearching_fields phaseSynthesizing_fields
  phaseGeneratingAudio_fields phasePlaying_fields startSource_fields flowCatch_fields

section \<open>The four ways a flow can go\<close>

lemma flowTrace_search_fails:
  "searchAndSummarize r q = Inl e \<Longrightarrow>
   flowTrace r q s =
     [phaseAnalyzing q s, phaseSearching q (phaseAnalyzing q s),
      flowCatch e (phaseSearching q (phaseAnalyzing q s))]"
  by (simp add: flowTrace_def Let_def)

lemma flowTrace_speech_fails:
  "searchAndSummarize r q = Inr res \<Longrightarrow> generateSpeech r (summary res) = Inl e \<Longrightarrow>
   flowTrace r q s =
     [phaseAnalyzing q s, phaseSearching q (phaseAnalyzing q s),
      phaseSynthesizing r q res (phaseSearching q (phaseAnalyzing q s)),
      phaseGeneratingAudio res (phaseSynthesizing r q res (phaseSearching q (phaseAnalyzing q s))),
      flowCatch e
        (phaseGeneratingAudio res (phaseSynthesizing r q res (phaseSearching q (phaseAnalyzing q s))))]"
  by (simp add: flowTrace_def Let_def)

lemma flowTrace_decode_fails:
  "searchAndSummarize r q = Inr res \<Longrightarrow> generateSpeech r (summary res) = Inr a \<Longrightarrow>
   decodeAudio r a = Inl e \<Longrightarrow>
   flowTrace r q s =
     [phaseAnalyzing q s, phaseSearching q (phaseAnalyzing q s),
      phaseSynthesizing r q res (phaseSearching q (phaseAnalyzing q s)),
      phaseGeneratingAudio res (phaseSynthesizing r q res (phaseSearching q (phaseAnalyzing q s))),
      phasePlaying
        (phaseGeneratingAudio res (phaseSynthesizing r q res (phaseSearching q (phaseAnalyzing q s)))),
      flowCatch e
        (phasePlaying
          (phaseGeneratingAudio res
            (phaseSynthesizing r q res (phaseSearching q (phaseAnalyzing q s)))))]"
  by (simp add: flowTrace_def Let_def)

lemma flowTrace_succeeds:
  "searchAndSummarize r q = Inr res \<Longrightarrow> generateSpeech r (summary res) = Inr a \<Longrightarrow>
   decodeAudio r a = Inr b \<Longrightarrow>
   flowTrace r q s =
     [phaseAnalyzing q s, phaseSearching q (phaseAnalyzing q s),
      phaseSynthesizing r q res (phaseSearching q (phaseAnalyzing q s)),
      phaseGeneratingAudio res (phaseSynthesizing r q res (phaseSearching q (phaseAnalyzing q s))),
      phasePlaying
        (phaseGeneratingAudio res (phaseSynthesizing r q res (phaseSearching q (phaseAnalyzing q s)))),
      startSource b
        (phasePlaying
          (phaseGeneratingAudio res
            (phaseSynthesizing r q res (phaseSearching q (phaseAnalyzing q s)))))]"
  by (simp add: flowTrace_def Let_def)

lemmas flowTrace_cases =
  flowTrace_search_fails flowTrace_speech_fails flowTrace_decode_fails flowTrace_succeeds

lemma flow_outcomes:
  obtains
    (search_fails) e where "searchAndSummarize r q = Inl e"
  | (speech_fails) res e where
      "searchAndSummarize r q = Inr res" "generateSpeech r (summary res) = Inl e"
  | (decode_fails) res a e where
      "searchAndSummarize r q = Inr res" "generateSpeech r (summary res) = Inr a"
      "decodeAudio r a = Inl e"
  | (succeeds) res a b where
      "searchAndSummarize r q = Inr res" "generateSpeech r (summary res) = Inr a"
      "decodeAudio r a = Inr b"
proof (cases "searchAndSummarize r q")
  case (Inl e)
  then show ?thesis by (rule search_fails)
next
  case (Inr res)
  note search = this
  show ?thesis
  proof (cases "generateSpeech r (summary res)")
    case (Inl e)
    with search show ?thesis by (rule speech_fails)
  next
    case (Inr a)
    note speech = this
    show ?thesis
    proof (cases "decodeAudio r a")
      case (Inl e)
      with search speech show ?thesis by (rule decode_fails)
    next
      case (Inr b)
      with search speech show ?thesis by (rule succeeds)
    qed
  qed
qed

lemma history_flow:
  "history (performSearchFlow r q s) =
     (case searchAndSummarize r q of
        Inl err \<Rightarrow> history s
      | Inr searchRes \<Rightarrow> newItem r q searchRes # take 19 (history s))"
  by (cases r q rule: flow_outcomes)
     (simp_all add: performSearchFlow_def flowTrace_cases phase_fields)

lemma logs_flow: "\<exists>ls. logs (performSearchFlow r q s) = logs s @ ls \<and> ls \<noteq> []"
  by (cases r q rule: flow_outcomes)
     (simp_all add: performSearchFlow_def flowTrace_cases phase_fields)

lemma remoteCalls_flow:
  "\<exists>cs. remoteCalls (performSearchFlow r q s) = remoteCalls s @ CallSearchAndSummarize q # cs"
  by (cases r q rule: flow_outcomes)
     (simp_all add: performSearchFlow_def flowTrace_cases phase_fields)

section \<open>The example inputs, evaluated\<close>

lemma summarize_cats: "summarize q catsResponse = catsResult"
proof -
  have m: "queryMatch (''Cats purr.'' @ [CHR 0x0A] @ ''QUERY_USED: cats'') = Some ''cats''"
    by code_simp
  have t: "trim ''cats'' = ''cats''"
    by code_simp
  have s: "trim (replaceQueryUsed (''Cats purr.'' @ [CHR 0x0A] @ ''QUERY_USED: cats'')) = ''Cats purr.''"
    by code_simp
  have u: "uniqueSources (pushSources [webChunk ''a'', webChunk ''b'', webChunk ''a'']) =
      [\<lparr>title = ''Source'', uri = ''a'', snippet = None\<rparr>,
       \<lparr>title = ''Source'', uri = ''b'', snippet = None\<rparr>]"
    by code_simp
  show ?thesis
    unfolding summarize_def catsResponse_def catsResult_def using m t s u by (simp add: Let_def)
qed

lemma remoteOk_calls:
  "searchAndSummarize (remoteOk\<lparr>dateNow := t\<rparr>) q = Inr catsResult"
  "generateSpeech (remoteOk\<lparr>dateNow := t\<rparr>) txt = Inr ''UklGRg==''"
  "decodeAudio (remoteOk\<lparr>dateNow := t\<rparr>) a = Inr (AudioBuffer 4)"
  "searchAndSummarize remoteOk q = Inr catsResult"
  "generateSpeech remoteOk txt = Inr ''UklGRg==''"
  "decodeAudio remoteOk a = Inr (AudioBuffer 4)"
  by (simp_all add: searchAndSummarize_def generateSpeech_def remoteOk_def summarize_cats)

lemma remoteNoAudio_calls:
  "searchAndSummarize remoteNoAudio q = Inr catsResult"
  "generateSpeech remoteNoAudio txt = Inl (JsError (Some ''Audio generation failed.''))"
  by (simp_all add: searchAndSummarize_def generateSpeech_def remoteNoAudio_def remoteOk_def
      summarize_cats)

lemma remoteBadAudio_calls:
  "searchAndSummarize remoteBadAudio q = Inr catsResult"
  "generateSpeech remoteBadAudio txt = Inr ''UklGRg==''"
  "decodeAudio remoteBadAudio a = Inl (JsError (Some ''Unable to decode audio data''))"
  by (simp_all add: searchAndSummarize_def generateSpeech_def remoteBadAudio_def remoteOk_def
      summarize_cats)

lemma remoteDown_calls:
  "searchAndSummarize remoteDown q = Inl (JsError (Some ''Failed to fetch''))"
  by (simp add: searchAndSummarize_def remoteDown_def remoteOk_def)

text \<open>The session of the examples, cell by cell.\<close>

lemma shownState_eq:
  "shownState =
     \<lparr>query = ''cats'', status = IDLE, results = Some catsResult, error = None,
      logs = [''Analyzing request: '' @ quoted ''cats'',
              ''Consulting Google Search for real-time information...'',
              ''Found 2 relevant sources.'',
              ''Model used search term: '' @ quoted ''cats'',
              ''Synthesizing search results into concise summary...'',
              ''Converting summary to speech using Gemini TTS...'',
              ''Playing audio summary.'',
              ''Playback finished.''],
      playbackFinished = True, isLuckyLoading = False,
      history = [\<lparr>h_id = ''1700'', h_query = ''cats'', h_results = catsResult\<rparr>],
      isSidebarOpen = True, audioContext = True, currentSource = None,
      remoteCalls = [CallSearchAndSummarize ''cats'', CallGenerateSpeech ''Cats purr.'']\<rparr>"
  by code_simp

lemma shownState_fields:
  "query shownState = ''cats''"
  "status shownState = IDLE"
  "results shownState = Some catsResult"
  "remoteCalls shownState = [CallSearchAndSummarize ''cats'', CallGenerateSpeech ''Cats purr.'']"
  "history shownState = [\<lparr>h_id = ''1700'', h_query = ''cats'', h_results = catsResult\<rparr>]"
  by (simp_all add: shownState_eq)

lemma replay_shownState:
  "flowTrace remoteOk ''cats'' shownState =
     [phaseAnalyzing ''cats'' shownState, phaseSearching ''cats'' (phaseAnalyzing ''cats'' shownState),
      phaseSynthesizing remoteOk ''cats'' catsResult
        (phaseSearching ''cats'' (phaseAnalyzing ''cats'' shownState)),
      phaseGeneratingAudio catsResult
        (phaseSynthesizing remoteOk ''cats'' catsResult
          (phaseSearching ''cats'' (phaseAnalyzing ''cats'' shownState))),
      phasePlaying
        (phaseGeneratingAudio catsResult
          (phaseSynthesizing remoteOk ''cats'' catsResult
            (phaseSearching ''cats'' (phaseAnalyzing ''cats'' shownState)))),
      startSource (AudioBuffer 4)
        (phasePlaying
          (phaseGeneratingAudio catsResult
            (phaseSynthesizing remoteOk ''cats'' catsResult
              (phaseSearching ''cats'' (phaseAnalyzing ''cats'' shownState)))))]"
  by (rule flowTrace_succeeds) (rule remoteOk_calls)+

lemma busyState_eq:
  "busyState =
     \<lparr>query = ''cats'', status = SEARCHING, results = Some catsResult, error = None,
      logs = [''Analyzing request: '' @ quoted ''cats'',
              ''Consulting Google Search for real-time information...'',
              ''Found 2 relevant sources.'',
              ''Model used search term: '' @ quoted ''cats'',
              ''Synthesizing search results into concise summary...'',
              ''Converting summary to speech using Gemini TTS...'',
              ''Playing audio summary.'',
              ''Playback finished.'',
              ''Analyzing request: '' @ quoted ''cats'',
              ''Consulting Google Search for real-time information...''],
      playbackFinished = False, isLuckyLoading = False,
      history = [\<lparr>h_id = ''1700'', h_query = ''cats'', h_results = catsResult\<rparr>],
      isSidebarOpen = True, audioContext = True, currentSource = None,
      remoteCalls = [CallSearchAndSummarize ''cats'', CallGenerateSpeech ''Cats purr.'',
                     CallSearchAndSummarize ''cats'']\<rparr>"
  by code_simp

lemma busyState_fields:
  "status busyState = SEARCHING"
  "results busyState = Some catsResult"
  by (simp_all add: busyState_eq)

lemma playingState_eq:
  "playingState =
     \<lparr>query = ''cats'', status = PLAYING, results = Some catsResult, error = None,
      logs = [''Analyzing request: '' @ quoted ''cats'',
              ''Consulting Google Search for real-time information...'',
              ''Found 2 relevant sources.'',
              ''Model used search term: '' @ quoted ''cats'',
              ''Synthesizing search results into concise summary...'',
              ''Converting summary to speech using Gemini TTS...'',
              ''Playing audio summary.'',
              ''Playback finished.'',
              ''Analyzing request: '' @ quoted ''cats'',
              ''Consulting Google Search for real-time information...'',
              ''Found 2 relevant sources.'',
              ''Model used search term: '' @ quoted ''cats'',
              ''Synthesizing search results into concise summary...'',
              ''Converting summary to speech using Gemini TTS...'',
              ''Playing audio summary.''],
      playbackFinished = False, isLuckyLoading = False,
      history = [\<lparr>h_id = ''1700'', h_query = ''cats'', h_results = catsResult\<rparr>,
                 \<lparr>h_id = ''1700'', h_query = ''cats'', h_results = catsResult\<rparr>],
      isSidebarOpen = True, audioContext = True, currentSource = Some (AudioBuffer 4),
      remoteCalls = [CallSearchAndSummarize ''cats'', CallGenerateSpeech ''Cats purr.'',
                     CallSearchAndSummarize ''cats'', CallGenerateSpeech ''Cats purr.'']\<rparr>"
  by code_simp

section \<open>History and the outcome of a flow\<close>

text \<open>
  Claim C2, as the code has it. The history entry is inserted in the Synthesizing part of
  the flow, as soon as \<open>searchAndSummarize\<close> has succeeded and before \<open>generateSpeech\<close> is
  called: after a flow the history is the new entry in front of the first 19 old ones
  whenever the search succeeded, whatever happens to the speech generation and the
  decoding afterwards, and it is the old history when the search itself failed.
\<close>

theorem history_after_flow:
  "history (performSearchFlow r q s) =
     (case searchAndSummarize r q of
        Inl err \<Rightarrow> history s
      | Inr searchRes \<Rightarrow> newItem r q searchRes # take 19 (history s))"
proof (cases r q rule: flow_outcomes)
  case (search_fails e)
  then show ?thesis
    by (simp add: performSearchFlow_def flowTrace_search_fails phase_fields)
next
  case (speech_fails res e)
  then show ?thesis
    by (simp add: performSearchFlow_def flowTrace_speech_fails phase_fields)
next
  case (decode_fails res a e)
  then show ?thesis
    by (simp add: performSearchFlow_def flowTrace_decode_fails phase_fields)
next
  case (succeeds res a b)
  then show ?thesis
    by (simp add: performSearchFlow_def flowTrace_succeeds phase_fields)
qed

theorem history_after_flow_witness:
  "history (performSearchFlow remoteDown ''cats'' shownState) = history shownState
   \<and> history (performSearchFlow remoteBadAudio ''cats'' shownState) =
       \<lparr>h_id = ''1700'', h_query = ''cats'', h_results = catsResult\<rparr> # take 19 (history shownState)"
proof -
  have id: "toString 1700 = ''1700''"
    by code_simp
  have now: "dateNow remoteBadAudio = 1700"
    by (simp add: remoteBadAudio_def remoteOk_def)
  show ?thesis
    using history_after_flow [of remoteDown "''cats''" shownState]
      history_after_flow [of remoteBadAudio "''cats''" shownState]
    by (simp add: remoteDown_calls remoteBadAudio_calls newItem_def id now)
qed

text \<open>
  Claim C2, as the spec states it, fails: with a backend that answers the search and then
  returns no audio payload, \<open>generateSpeech\<close> throws, the flow ends in \<open>ERROR\<close>, and the
  history has gained the entry all the same.
\<close>

theorem history_unchanged_on_failure_counterexample:
  "generateSpeech remoteNoAudio (summary catsResult) = Inl (JsError (Some ''Audio generation failed.''))
   \<and> status (performSearchFlow remoteNoAudio ''cats'' initialState) = ERROR
   \<and> history initialState = []
   \<and> history (performSearchFlow remoteNoAudio ''cats'' initialState) =
       [\<lparr>h_id = ''1700'', h_query = ''cats'', h_results = catsResult\<rparr>]"
proof -
  have id: "toString 1700 = ''1700''"
    by code_simp
  have now: "dateNow remoteNoAudio = 1700"
    by (simp add: remoteNoAudio_def remoteOk_def)
  have tr: "flowTrace remoteNoAudio ''cats'' initialState =
     [phaseAnalyzing ''cats'' initialState, phaseSearching ''cats'' (phaseAnalyzing ''cats'' initialState),
      phaseSynthesizing remoteNoAudio ''cats'' catsResult (phaseSearching ''cats'' (phaseAnalyzing ''cats'' initialState)),
      phaseGeneratingAudio catsResult (phaseSynthesizing remoteNoAudio ''cats'' catsResult (phaseSearching ''cats'' (phaseAnalyzing ''cats'' initialState))),
      flowCatch (JsError (Some ''Audio generation failed.''))
        (phaseGeneratingAudio catsResult (phaseSynthesizing remoteNoAudio ''cats'' catsResult (phaseSearching ''cats'' (phaseAnalyzing ''cats'' initialState))))]"
    by (rule flowTrace_speech_fails) (rule remoteNoAudio_calls)+
  have st: "status (performSearchFlow remoteNoAudio ''cats'' initialState) = ERROR"
    by (simp add: performSearchFlow_def tr phase_fields)
  have hi: "history (performSearchFlow remoteNoAudio ''cats'' initialState) =
      newItem remoteNoAudio ''cats'' catsResult # take 19 (history initialState)"
    by (simp add: performSearchFlow_def tr phase_fields)
  have old: "history initialState = []"
    by (simp add: initialState_def)
  show ?thesis
    by (simp add: st hi old remoteNoAudio_calls newItem_def id now)
qed

section \<open>A failure after the search keeps the active response\<close>

text \<open>
  Claim C8. Let the search succeed with \<open>searchRes\<close> and a later step fail: the speech
  generation (a rejected call, or the \<open>Audio generation failed.\<close> thrown for a missing
  payload), or the decoding. Then the state in which the failure was caught already holds
  \<open>searchRes\<close> as the active response, the \<open>catch\<close> block changes only the error, the status
  (to \<open>ERROR\<close>) and the log (one more line), and the state the flow leaves still holds
  \<open>searchRes\<close> and the history entry.
\<close>

theorem failure_keeps_active_response:
  assumes search: "searchAndSummarize r q = Inr searchRes"
    and later:
      "(\<exists>e. generateSpeech r (summary searchRes) = Inl e)
       \<or> (\<exists>a e. generateSpeech r (summary searchRes) = Inr a \<and> decodeAudio r a = Inl e)"
  shows "results (last (butlast (flowTrace r q s))) = Some searchRes
    \<and> results (performSearchFlow r q s) = Some searchRes
    \<and> status (performSearchFlow r q s) = ERROR
    \<and> error (performSearchFlow r q s) \<noteq> None
    \<and> length (logs (performSearchFlow r q s)) = Suc (length (logs (last (butlast (flowTrace r q s)))))
    \<and> (performSearchFlow r q s)
         \<lparr>error := error (last (butlast (flowTrace r q s))),
          status := status (last (butlast (flowTrace r q s))),
          logs := logs (last (butlast (flowTrace r q s)))\<rparr> = last (butlast (flowTrace r q s))
    \<and> history (performSearchFlow r q s) = newItem r q searchRes # take 19 (history s)"
proof -
  define sf where "sf = last (butlast (flowTrace r q s))"
  from later obtain e where
    final: "performSearchFlow r q s = flowCatch e sf"
    and res: "results sf = Some searchRes"
    and his: "history sf = newItem r q searchRes # take 19 (history s)"
  proof (elim disjE exE conjE)
    fix e
    assume "generateSpeech r (summary searchRes) = Inl e"
    with search have "performSearchFlow r q s = flowCatch e sf \<and> results sf = Some searchRes
        \<and> history sf = newItem r q searchRes # take 19 (history s)"
      by (simp add: sf_def performSearchFlow_def flowTrace_speech_fails phase_fields)
    then show ?thesis by (blast intro: that)
  next
    fix a e
    assume "generateSpeech r (summary searchRes) = Inr a" "decodeAudio r a = Inl e"
    with search have "performSearchFlow r q s = flowCatch e sf \<and> results sf = Some searchRes
        \<and> history sf = newItem r q searchRes # take 19 (history s)"
      by (simp add: sf_def performSearchFlow_def flowTrace_decode_fails phase_fields)
    then show ?thesis by (blast intro: that)
  qed
  have frame: "(flowCatch e sf)\<lparr>error := error sf, status := status sf, logs := logs sf\<rparr> = sf"
    by (rule flowCatch_frame)
  show ?thesis
    unfolding sf_def [symmetric] final
    using res his frame by (simp add: flowCatch_fields flowCatch_error)
qed

theorem failure_keeps_active_response_witness:
  "searchAndSummarize remoteBadAudio ''cats'' = Inr catsResult
   \<and> generateSpeech remoteBadAudio (summary catsResult) = Inr ''UklGRg==''
   \<and> decodeAudio remoteBadAudio ''UklGRg=='' = Inl (JsError (Some ''Unable to decode audio data''))
   \<and> results (performSearchFlow remoteBadAudio ''cats'' initialState) = Some catsResult
   \<and> status (performSearchFlow remoteBadAudio ''cats'' initialState) = ERROR"
proof -
  have later:
    "(\<exists>e. generateSpeech remoteBadAudio (summary catsResult) = Inl e)
     \<or> (\<exists>a e. generateSpeech remoteBadAudio (summary catsResult) = Inr a
           \<and> decodeAudio remoteBadAudio a = Inl e)"
    by (simp add: remoteBadAudio_calls)
  show ?thesis
    using failure_keeps_active_response
      [of remoteBadAudio "''cats''" catsResult initialState, OF remoteBadAudio_calls(1) later]
    by (simp add: remoteBadAudio_calls)
qed

section \<open>The log of a flow\<close>

text \<open>
  Claim C9. Whatever the backend answers, along the states a flow passes through (the
  starting state included) the log only grows at its end: the log of every state is a
  prefix of the log of every later one. When the search, the speech generation and the
  decoding all succeed, the flow has appended exactly its seven lines in the order of the
  phases, and the status has taken the values Analyzing, Searching, Synthesizing,
  GeneratingAudio, Playing in this order, none left out.
\<close>

theorem log_append_only_in_phase_order:
  "sorted_wrt (\<lambda>a b. prefix (logs a) (logs b)) (s # flowTrace r q s)
   \<and> (searchAndSummarize r q = Inr searchRes \<and> generateSpeech r (summary searchRes) = Inr a
        \<and> decodeAudio r a = Inr b \<longrightarrow>
      logs (performSearchFlow r q s) = logs s @
        [''Analyzing request: '' @ quoted q,
         ''Consulting Google Search for real-time information...'',
         ''Found '' @ toString (length (sources searchRes)) @ '' relevant sources.'',
         ''Model used search term: '' @ quoted (actualQuery searchRes),
         ''Synthesizing search results into concise summary...'',
         ''Converting summary to speech using Gemini TTS...'',
         ''Playing audio summary.'']
      \<and> map status (flowTrace r q s) =
          [ANALYZING, SEARCHING, SYNTHESIZING, GENERATING_AUDIO, PLAYING, PLAYING])"
proof
  show "sorted_wrt (\<lambda>a b. prefix (logs a) (logs b)) (s # flowTrace r q s)"
    by (cases r q rule: flow_outcomes) (simp_all add: flowTrace_cases phase_fields)
next
  show "searchAndSummarize r q = Inr searchRes \<and> generateSpeech r (summary searchRes) = Inr a
        \<and> decodeAudio r a = Inr b \<longrightarrow>
      logs (performSearchFlow r q s) = logs s @
        [''Analyzing request: '' @ quoted q,
         ''Consulting Google Search for real-time information...'',
         ''Found '' @ toString (length (sources searchRes)) @ '' relevant sources.'',
         ''Model used search term: '' @ quoted (actualQuery searchRes),
         ''Synthesizing search results into concise summary...'',
         ''Converting summary to speech using Gemini TTS...'',
         ''Playing audio summary.'']
      \<and> map status (flowTrace r q s) =
          [ANALYZING, SEARCHING, SYNTHESIZING, GENERATING_AUDIO, PLAYING, PLAYING]"
    by (simp add: performSearchFlow_def flowTrace_succeeds phase_fields)
qed

theorem log_append_only_in_phase_order_witness:
  "searchAndSummarize remoteOk ''cats'' = Inr catsResult
   \<and> generateSpeech remoteOk (summary catsResult) = Inr ''UklGRg==''
   \<and> decodeAudio remoteOk ''UklGRg=='' = Inr (AudioBuffer 4)
   \<and> logs (performSearchFlow remoteOk ''cats'' shownState) = logs shownState @
       [''Analyzing request: '' @ quoted ''cats'',
        ''Consulting Google Search for real-time information...'',
        ''Found 2 relevant sources.'',
        ''Model used search term: '' @ quoted ''cats'',
        ''Synthesizing search results into concise summary...'',
        ''Converting summary to speech using Gemini TTS...'',
        ''Playing audio summary.'']"
proof -
  have two: "toString (Suc (Suc 0)) = ''2''"
    by code_simp
  show ?thesis
    using log_append_only_in_phase_order
      [of shownState remoteOk "''cats''" catsResult "''UklGRg==''" "AudioBuffer 4"]
    by (simp add: remoteOk_calls catsResult_def two)
qed

section \<open>Replay\<close>

text \<open>
  Claim C1, as the code has it. The Replay button runs \<open>performSearchFlow(query)\<close>, the same
  core flow as a search. Invoked with an active response in \<open>IDLE\<close> or \<open>ERROR\<close>, it first
  passes through Analyzing and Searching and calls \<open>searchAndSummarize\<close> again with the
  current query, before any other remote call. Only when that call succeeds does it go on
  to GeneratingAudio, with the summary of the response just fetched (which also becomes
  the active one), and to Playing when speech generation and decoding succeed; when the
  search fails, the replay ends in \<open>ERROR\<close> without a speech call.
\<close>

theorem replay_runs_whole_flow:
  assumes "results s \<noteq> None" and "status s = IDLE \<or> status s = ERROR"
  shows "map status (take 2 (flowTrace r (query s) s)) = [ANALYZING, SEARCHING]
    \<and> (\<exists>cs. remoteCalls (replay r s) = remoteCalls s @ CallSearchAndSummarize (query s) # cs)
    \<and> (\<forall>e. searchAndSummarize r (query s) = Inl e \<longrightarrow>
          status (replay r s) = ERROR
          \<and> remoteCalls (replay r s) = remoteCalls s @ [CallSearchAndSummarize (query s)])
    \<and> (\<forall>searchRes a b.
          searchAndSummarize r (query s) = Inr searchRes
          \<and> generateSpeech r (summary searchRes) = Inr a \<and> decodeAudio r a = Inr b \<longrightarrow>
          map status (flowTrace r (query s) s) =
            [ANALYZING, SEARCHING, SYNTHESIZING, GENERATING_AUDIO, PLAYING, PLAYING]
          \<and> status (replay r s) = PLAYING
          \<and> results (replay r s) = Some searchRes
          \<and> remoteCalls (replay r s) =
              remoteCalls s @ [CallSearchAndSummarize (query s), CallGenerateSpeech (summary searchRes)])"
proof (intro conjI allI impI)
  show "map status (take 2 (flowTrace r (query s) s)) = [ANALYZING, SEARCHING]"
    by (cases r "query s" rule: flow_outcomes) (simp_all add: flowTrace_cases phase_fields)
next
  show "\<exists>cs. remoteCalls (replay r s) = remoteCalls s @ CallSearchAndSummarize (query s) # cs"
    unfolding replay_def by (rule remoteCalls_flow)
next
  fix e
  assume "searchAndSummarize r (query s) = Inl e"
  then show "status (replay r s) = ERROR"
    and "remoteCalls (replay r s) = remoteCalls s @ [CallSearchAndSummarize (query s)]"
    by (simp_all add: replay_def performSearchFlow_def flowTrace_search_fails phase_fields)
next
  fix searchRes a b
  assume ok: "searchAndSummarize r (query s) = Inr searchRes
    \<and> generateSpeech r (summary searchRes) = Inr a \<and> decodeAudio r a = Inr b"
  then have tr: "flowTrace r (query s) s =
     [phaseAnalyzing (query s) s, phaseSearching (query s) (phaseAnalyzing (query s) s),
      phaseSynthesizing r (query s) searchRes (phaseSearching (query s) (phaseAnalyzing (query s) s)),
      phaseGeneratingAudio searchRes (phaseSynthesizing r (query s) searchRes (phaseSearching (query s) (phaseAnalyzing (query s) s))),
      phasePlaying
        (phaseGeneratingAudio searchRes (phaseSynthesizing r (query s) searchRes (phaseSearching (query s) (phaseAnalyzing (query s) s)))),
      startSource b
        (phasePlaying
          (phaseGeneratingAudio searchRes
            (phaseSynthesizing r (query s) searchRes (phaseSearching (query s) (phaseAnalyzing (query s) s)))))]"
    by (simp add: flowTrace_succeeds)
  show "map status (flowTrace r (query s) s) =
      [ANALYZING, SEARCHING, SYNTHESIZING, GENERATING_AUDIO, PLAYING, PLAYING]"
    by (simp add: tr phase_fields)
  show "status (replay r s) = PLAYING"
    by (simp add: replay_def performSearchFlow_def tr phase_fields)
  show "results (replay r s) = Some searchRes"
    by (simp add: replay_def performSearchFlow_def tr phase_fields)
  show "remoteCalls (replay r s) =
      remoteCalls s @ [CallSearchAndSummarize (query s), CallGenerateSpeech (summary searchRes)]"
    by (simp add: replay_def performSearchFlow_def tr phase_fields)
qed

theorem replay_runs_whole_flow_witness:
  "results shownState \<noteq> None \<and> status shownState = IDLE
   \<and> searchAndSummarize remoteOk (query shownState) = Inr catsResult
   \<and> generateSpeech remoteOk (summary catsResult) = Inr ''UklGRg==''
   \<and> decodeAudio remoteOk ''UklGRg=='' = Inr (AudioBuffer 4)
   \<and> status (replay remoteOk shownState) = PLAYING
   \<and> results (replay remoteOk shownState) = Some catsResult
   \<and> remoteCalls (replay remoteOk shownState) =
       remoteCalls shownState @ [CallSearchAndSummarize ''cats'', CallGenerateSpeech ''Cats purr.'']"
proof -
  have h1: "results shownState \<noteq> None"
    by (simp add: shownState_fields)
  have st: "status shownState = IDLE"
    by (rule shownState_fields)
  then have h2: "status shownState = IDLE \<or> status shownState = ERROR"
    by simp
  have ok: "searchAndSummarize remoteOk (query shownState) = Inr catsResult
      \<and> generateSpeech remoteOk (summary catsResult) = Inr ''UklGRg==''
      \<and> decodeAudio remoteOk ''UklGRg=='' = Inr (AudioBuffer 4)"
    by (simp add: remoteOk_calls)
  have su: "summary catsResult = ''Cats purr.''"
    by (simp add: catsResult_def)
  from replay_runs_whole_flow [of shownState remoteOk, OF h1 h2] ok
  have "status (replay remoteOk shownState) = PLAYING
      \<and> results (replay remoteOk shownState) = Some catsResult
      \<and> remoteCalls (replay remoteOk shownState) =
          remoteCalls shownState @
          [CallSearchAndSummarize (query shownState), CallGenerateSpeech (summary catsResult)]"
    by blast
  with h1 st ok show ?thesis
    by (simp add: shownState_fields(1) su)
qed

text \<open>
  Claim C1, as the spec states it, fails: in an idle session with an active response,
  Replay does not start at GeneratingAudio and does call the search. The statuses it
  passes through begin with Analyzing and Searching, and the first remote call it adds to
  the two of the search that produced the response is \<open>searchAndSummarize\<close> again.
\<close>

theorem replay_without_search_counterexample:
  "results shownState = Some catsResult \<and> status shownState = IDLE
   \<and> remoteCalls shownState =
       [CallSearchAndSummarize ''cats'', CallGenerateSpeech ''Cats purr.'']
   \<and> map status (flowTrace remoteOk (query shownState) shownState) =
       [ANALYZING, SEARCHING, SYNTHESIZING, GENERATING_AUDIO, PLAYING, PLAYING]
   \<and> remoteCalls (replay remoteOk shownState) =
       [CallSearchAndSummarize ''cats'', CallGenerateSpeech ''Cats purr.'',
        CallSearchAndSummarize ''cats'', CallGenerateSpeech ''Cats purr.'']"
proof -
  have su: "summary catsResult = ''Cats purr.''"
    by (simp add: catsResult_def)
  have m: "map status (flowTrace remoteOk ''cats'' shownState) =
      [ANALYZING, SEARCHING, SYNTHESIZING, GENERATING_AUDIO, PLAYING, PLAYING]"
    by (simp add: replay_shownState phase_fields)
  have cs: "remoteCalls (replay remoteOk shownState) =
      remoteCalls shownState @ [CallSearchAndSummarize ''cats'', CallGenerateSpeech (summary catsResult)]"
    by (simp add: replay_def shownState_fields(1) performSearchFlow_def replay_shownState phase_fields)
  show ?thesis
    using m cs by (simp add: shownState_fields su)
qed

section \<open>The guards of the entry points\<close>

lemma stopAudio_fields:
  "logs (stopAudio s) = logs s"
  "results (stopAudio s) = results s"
  "history (stopAudio s) = history s"
  "remoteCalls (stopAudio s) = remoteCalls s"
  "query (stopAudio s) = query s"
  by (simp_all add: stopAudio_def Let_def split: option.splits)

text \<open>The handlers taken by themselves: \<open>handleWorkshop\<close> returns at once while
  \<open>isSearching\<close> holds, and \<open>handleFindMore\<close> reads no status, so that with an active
  response it goes ahead and appends to the log. The status gate of these two entry points
  is the render condition of their buttons.\<close>

lemma handleWorkshop_rejects:
  "status s \<in> {TWEAKING, ANALYZING, SEARCHING, SYNTHESIZING, GENERATING_AUDIO} \<Longrightarrow>
   handleWorkshop r s = s"
  by (auto simp add: handleWorkshop_def isSearching_def)

lemma handleFindMore_without_result: "results s = None \<Longrightarrow> handleFindMore r s = s"
  by (simp add: handleFindMore_def)

lemma handleFindMore_proceeds:
  assumes "results s \<noteq> None"
  shows "\<exists>ls. logs (handleFindMore r s) = logs s @ ''Generating a deeper research query...'' # ls"
proof -
  from assms obtain res where res: "results s = Some res"
    by blast
  define s1 where
    "s1 = call (CallRefineQuery (query s) (summary res))
            (addLog ''Generating a deeper research query...'' (s\<lparr>status := ANALYZING\<rparr>))"
  have l1: "logs s1 = logs s @ [''Generating a deeper research query...'']"
    by (simp add: s1_def call_def addLog_def)
  show ?thesis
  proof (cases "refineQuery r (query s) (summary res)")
    case (Inl e)
    then have "handleFindMore r s = s1\<lparr>error := Some ''Failed to generate a deeper query.'', status := ERROR\<rparr>"
      by (simp add: handleFindMore_def res s1_def Let_def)
    then show ?thesis
      by (simp add: l1)
  next
    case (Inr d)
    then have h: "handleFindMore r s =
        performSearchFlow r d (addLog (''New exploration path: '' @ quoted d) (s1\<lparr>query := d\<rparr>))"
      by (simp add: handleFindMore_def res s1_def Let_def)
    obtain ls where "logs (handleFindMore r s) =
        logs (addLog (''New exploration path: '' @ quoted d) (s1\<lparr>query := d\<rparr>)) @ ls"
      unfolding h using logs_flow by blast
    then show ?thesis
      by (simp add: addLog_def l1)
  qed
qed

text \<open>
  Claim C3. In every state whose status is neither \<open>IDLE\<close> nor \<open>ERROR\<close>, invoking Search,
  Workshop or FindMore through the entry points the component offers is a silent no-op:
  the whole state is left as it was, so the status, the log and the active response are
  unchanged (and no remote call is issued). Search is turned away by the guard of
  \<open>handleSearch\<close>; Workshop and FindMore are not reachable, their buttons being rendered in
  the status \<open>IDLE\<close> only.
\<close>

theorem entry_points_rejected:
  assumes "status s \<noteq> IDLE" and "status s \<noteq> ERROR"
  shows "searchEntry r s = s \<and> workshopEntry r s = s \<and> findMoreEntry r s = s
    \<and> status (searchEntry r s) = status s \<and> logs (searchEntry r s) = logs s
    \<and> results (searchEntry r s) = results s
    \<and> remoteCalls (searchEntry r s) = remoteCalls s
    \<and> remoteCalls (workshopEntry r s) = remoteCalls s
    \<and> remoteCalls (findMoreEntry r s) = remoteCalls s"
proof -
  from assms have search: "searchEntry r s = s"
    by (simp add: searchEntry_def handleSearch_def)
  from assms(1) have "\<not> workshopShown s"
    by (simp add: workshopShown_def)
  then have workshop: "workshopEntry r s = s"
    by (simp add: workshopEntry_def)
  from assms(1) have "\<not> findMoreShown s"
    by (simp add: findMoreShown_def)
  then have findMore: "findMoreEntry r s = s"
    by (simp add: findMoreEntry_def)
  show ?thesis
    by (simp add: search workshop findMore)
qed

theorem entry_points_rejected_witness:
  "status busyState \<noteq> IDLE \<and> status busyState \<noteq> ERROR
   \<and> searchEntry remoteOk busyState = busyState
   \<and> workshopEntry remoteOk busyState = busyState
   \<and> findMoreEntry remoteOk busyState = busyState"
proof -
  have st: "status busyState \<noteq> IDLE" "status busyState \<noteq> ERROR"
    by (simp_all add: busyState_fields)
  show ?thesis
    using entry_points_rejected [of busyState remoteOk, OF st] st by simp
qed

section \<open>Stopping playback\<close>

text \<open>What \<open>stopAudio\<close> itself does: it drops the source handle and leaves \<open>PLAYING\<close> for
  \<open>IDLE\<close>; it writes neither the playback-finished flag nor the log, and it issues no
  remote call. With no source held and a status other than \<open>PLAYING\<close> it changes nothing,
  so a second call in a row changes nothing.\<close>

lemma stopAudio_while_playing:
  "status s = PLAYING \<Longrightarrow> stopAudio s = s\<lparr>currentSource := None, status := IDLE\<rparr>"
  by (simp add: stopAudio_def Let_def split: option.splits)

lemma stopAudio_keeps_flag_and_log:
  "playbackFinished (stopAudio s) = playbackFinished s"
  "logs (stopAudio s) = logs s"
  "remoteCalls (stopAudio s) = remoteCalls s"
  by (simp_all add: stopAudio_def Let_def split: option.splits)

lemma stopAudio_nothing_playing:
  "currentSource s = None \<Longrightarrow> status s \<noteq> PLAYING \<Longrightarrow> stopAudio s = s"
  by (simp add: stopAudio_def Let_def)

lemma stopAudio_twice: "stopAudio (stopAudio s) = stopAudio s"
  by (simp add: stopAudio_def Let_def split: option.splits)

lemma onended_effect:
  "onended s =
     s\<lparr>status := IDLE, currentSource := None, playbackFinished := True,
       logs := logs s @ [''Playback finished.'']\<rparr>"
  by (simp add: onended_def addLog_def)

text \<open>The callback reads no cell: it cannot tell a stop from the end of the buffer, and
  \<open>stopAudio\<close> does not take it off the node. Run after a stop, it sets the flag and
  appends its line, from any state.\<close>

lemma ended_after_stop:
  "playbackFinished (run [(r, Stop), (r', Ended)] s) = True"
  "logs (run [(r, Stop), (r', Ended)] s) = logs s @ [''Playback finished.'']"
  by (simp_all add: onended_effect stopAudio_keeps_flag_and_log)

text \<open>\<open>handleGoBack\<close> stops the audio and then resets the flag and clears the log; the
  callback of the stopped node undoes both.\<close>

lemma ended_after_go_back:
  "playbackFinished (handleGoBack s) = False"
  "logs (handleGoBack s) = []"
  "playbackFinished (run [(r, GoBack), (r', Ended)] s) = True"
  "logs (run [(r, GoBack), (r', Ended)] s) = [''Playback finished.'']"
  by (simp_all add: onended_effect handleGoBack_def Let_def)

text \<open>
  Claim C4 on a stop during playback. In the playing session of the examples, \<open>stopAudio\<close>
  halts the output (the handle is dropped, the status is \<open>IDLE\<close>) and itself leaves the
  flag and the log alone, and a second stop changes nothing more. But the node it stopped
  still carries the \<open>onended\<close> callback, and the platform dispatches \<open>ended\<close> on a node
  that was stopped: after the stop and that event the playback-finished flag is set and
  the line \<open>Playback finished.\<close> is in the log, as after a natural end.
\<close>

theorem stop_then_ended:
  "status playingState = PLAYING
   \<and> currentSource playingState = Some (AudioBuffer 4)
   \<and> playbackFinished playingState = False
   \<and> stopAudio playingState = playingState\<lparr>currentSource := None, status := IDLE\<rparr>
   \<and> stopAudio (stopAudio playingState) = stopAudio playingState
   \<and> playbackFinished (run [(remoteOk, Stop), (remoteOk, Ended)] playingState) = True
   \<and> logs (run [(remoteOk, Stop), (remoteOk, Ended)] playingState) =
       logs playingState @ [''Playback finished.'']"
proof -
  have st: "status playingState = PLAYING"
    and src: "currentSource playingState = Some (AudioBuffer 4)"
    and fl: "playbackFinished playingState = False"
    by (simp_all add: playingState_eq)
  from st have stop: "stopAudio playingState = playingState\<lparr>currentSource := None, status := IDLE\<rparr>"
    by (rule stopAudio_while_playing)
  have twice: "stopAudio (stopAudio playingState) = stopAudio playingState"
    by (rule stopAudio_twice)
  have flag: "playbackFinished (run [(remoteOk, Stop), (remoteOk, Ended)] playingState) = True"
    by (simp add: onended_effect)
  have log: "logs (run [(remoteOk, Stop), (remoteOk, Ended)] playingState) =
      logs playingState @ [''Playback finished.'']"
    by (simp add: onended_effect stopAudio_keeps_flag_and_log)
  from st src fl stop twice flag log show ?thesis
    by (intro conjI)
qed

section \<open>The bound on the history\<close>

lemma length_history_flow:
  "length (history s) \<le> 20 \<Longrightarrow> length (history (performSearchFlow r q s)) \<le> 20"
  by (simp add: history_flow split: sum.splits)

lemma length_history_step:
  assumes "length (history s) \<le> 20"
  shows "length (history (step r a s)) \<le> 20"
proof (cases a)
  case Search
  with assms show ?thesis
    by (simp add: handleSearch_def Let_def length_history_flow stopAudio_fields)
next
  case Workshop
  with assms show ?thesis
    by (simp add: handleWorkshop_def Let_def length_history_flow stopAudio_fields addLog_def
        call_def split: sum.splits)
next
  case FeelingLucky
  with assms show ?thesis
    by (simp add: handleFeelingLucky_def Let_def length_history_flow stopAudio_fields addLog_def
        call_def split: sum.splits)
next
  case FindMore
  with assms show ?thesis
    by (simp add: handleFindMore_def Let_def length_history_flow addLog_def call_def
        split: sum.splits option.splits)
next
  case GoBack
  with assms show ?thesis
    by (simp add: handleGoBack_def Let_def stopAudio_fields)
next
  case (HistoryClick item)
  with assms show ?thesis
    by (simp add: handleHistoryClick_def Let_def stopAudio_fields)
next
  case Stop
  with assms show ?thesis
    by (simp add: stopAudio_fields)
next
  case Replay
  with assms show ?thesis
    by (simp add: replay_def length_history_flow)
next
  case Ended
  with assms show ?thesis
    by (simp add: onended_def addLog_def)
next
  case (Type v)
  with assms show ?thesis
    by simp
next
  case ToggleSidebar
  with assms show ?thesis
    by simp
qed

lemma length_history_run:
  "length (history s) \<le> 20 \<Longrightarrow> length (history (run evs s)) \<le> 20"
proof (induction evs arbitrary: s)
  case Nil
  then show ?case by simp
next
  case (Cons ev evs)
  obtain r a where ev: "ev = (r, a)"
    by (cases ev)
  from Cons.prems have "length (history (step r a s)) \<le> 20"
    by (rule length_history_step)
  then show ?case
    unfolding ev by (simp add: Cons.IH)
qed

text \<open>After a row of flows the history holds the entries of those whose search succeeded,
  newest first, in front of the old entries, cut to twenty.\<close>

lemma history_runFlows:
  "history (runFlows fs s) = take 20 (rev (List.map_filter flowEntry fs) @ history s)"
  if "length (history s) \<le> 20"
  using that
proof (induction fs arbitrary: s)
  case Nil
  then show ?case by simp
next
  case (Cons f fs)
  obtain r q where f: "f = (r, q)"
    by (cases f)
  have len: "length (history (performSearchFlow r q s)) \<le> 20"
    using Cons.prems by (rule length_history_flow)
  show ?case
  proof (cases "searchAndSummarize r q")
    case (Inl e)
    then have "flowEntry f = None" and "history (performSearchFlow r q s) = history s"
      by (simp_all add: flowEntry_def f history_flow)
    with Cons.IH [OF len] show ?thesis
      by (simp add: f)
  next
    case (Inr res)
    then have e: "flowEntry (r, q) = Some (newItem r q res)"
      and h: "history (performSearchFlow r q s) = newItem r q res # take 19 (history s)"
      by (simp_all add: flowEntry_def history_flow)
    have "history (runFlows (f # fs) s) =
        take 20 (rev (List.map_filter flowEntry fs) @ history (performSearchFlow r q s))"
      using Cons.IH [OF len] by (simp add: f)
    also have "\<dots> = take 20 (rev (List.map_filter flowEntry fs) @ newItem r q res # take 19 (history s))"
      by (simp only: h)
    also have "\<dots> = take 20 (rev (List.map_filter flowEntry fs) @ newItem r q res # history s)"
      by (cases "20 - length (List.map_filter flowEntry fs)") (simp_all add: min_def)
    also have "\<dots> = take 20 (rev (List.map_filter flowEntry (f # fs)) @ history s)"
      by (simp add: f e)
    finally show ?thesis .
  qed
qed

text \<open>Decimal printing loses nothing.\<close>

lemma fromDigits_append: "fromDigits acc (xs @ ys) = fromDigits (fromDigits acc xs) ys"
  by (induction xs arbitrary: acc) simp_all

lemma fromDigits_toString: "fromDigits 0 (toString n) = n"
proof (induction n rule: toString.induct)
  case (1 n)
  show ?case
  proof (cases "n < 10")
    case True
    then show ?thesis
      by (subst toString.simps) (simp add: digit_def)
  next
    case False
    have "n mod 10 < 10"
      by simp
    then have d: "of_char (digit (n mod 10)) = 48 + n mod 10"
      by (simp add: digit_def)
    from False have "toString n = toString (n div 10) @ [digit (n mod 10)]"
      by (subst toString.simps) simp
    with 1 False d show ?thesis
      by (simp add: fromDigits_append)
  qed
qed

lemma toString_inj: "toString m = toString n \<Longrightarrow> m = n"
  by (metis fromDigits_toString)


text \<open>
  Claim C7. The history never holds more than 20 entries: that holds in every state a
  session can reach from the initial one, whatever the user does and the backend answers.
  After 21 successful flows started with an empty history it holds exactly 20 entries,
  which are the entries of the flows 21, 20, ..., 2 in this order; the entry of the first
  flow is gone (no entry left carries its id, when the flows ran at different times).
\<close>

theorem history_bound:
  "length (history (run evs initialState)) \<le> 20
   \<and> (length fs = 21 \<and> list_all flowSucceeds fs \<and> history s = [] \<longrightarrow>
        length (history (runFlows fs s)) = 20
        \<and> map Some (history (runFlows fs s)) = rev (map flowEntry (tl fs))
        \<and> (distinct (map (\<lambda>f. dateNow (fst f)) fs) \<longrightarrow>
             toString (dateNow (fst (hd fs))) \<notin> set (map h_id (history (runFlows fs s)))))"
proof (intro conjI impI)
  show "length (history (run evs initialState)) \<le> 20"
    by (rule length_history_run) (simp add: initialState_def)
next
  assume a: "length fs = 21 \<and> list_all flowSucceeds fs \<and> history s = []"
  have entry: "\<exists>res. searchAndSummarize (fst f) (snd f) = Inr res
      \<and> flowEntry f = Some (newItem (fst f) (snd f) res)" if "f \<in> set fs" for f
  proof -
    from a that have "flowSucceeds f"
      by (simp add: list_all_iff)
    then show ?thesis
      by (cases "searchAndSummarize (fst f) (snd f)") (simp_all add: flowSucceeds_def flowEntry_def)
  qed
  then have all: "\<forall>f\<in>set fs. flowEntry f \<noteq> None"
    by fastforce
  have mf: "map Some (List.map_filter flowEntry fs) = map flowEntry fs"
    using all by (induction fs) auto
  then have len: "length (List.map_filter flowEntry fs) = 21"
    using a by (metis length_map)
  from a have h: "history (runFlows fs s) = take 20 (rev (List.map_filter flowEntry fs))"
    by (simp add: history_runFlows)
  from a obtain f0 fs' where fs: "fs = f0 # fs'"
    by (cases fs) simp_all
  from all fs obtain e0 where e0: "flowEntry f0 = Some e0"
    by fastforce
  have tl: "tl fs = fs'" and hd: "hd fs = f0" and mem: "set fs' \<subseteq> set fs"
    by (auto simp add: fs)
  have len': "length (List.map_filter flowEntry fs') = 20"
    using len unfolding fs by (simp add: e0)
  have h': "history (runFlows fs s) = rev (List.map_filter flowEntry fs')"
    using h len' unfolding fs by (simp add: e0)
  show "length (history (runFlows fs s)) = 20"
    by (simp add: h' len')
  have "map Some (List.map_filter flowEntry fs') = map flowEntry fs'"
    using mf unfolding fs by (simp add: e0)
  then have "rev (map Some (List.map_filter flowEntry fs')) = rev (map flowEntry fs')"
    by simp
  then show m: "map Some (history (runFlows fs s)) = rev (map flowEntry (tl fs))"
    unfolding h' tl by (simp only: rev_map)
  assume d: "distinct (map (\<lambda>f. dateNow (fst f)) fs)"
  show "toString (dateNow (fst (hd fs))) \<notin> set (map h_id (history (runFlows fs s)))"
  proof
    assume "toString (dateNow (fst (hd fs))) \<in> set (map h_id (history (runFlows fs s)))"
    then obtain x where x: "x \<in> set (history (runFlows fs s))"
      and id: "h_id x = toString (dateNow (fst f0))"
      by (auto simp add: hd)
    from x have "Some x \<in> set (map Some (history (runFlows fs s)))"
      by simp
    then have "Some x \<in> set (map flowEntry fs')"
      unfolding m tl by simp
    then obtain f where f: "f \<in> set fs'" and fx: "flowEntry f = Some x"
      by auto
    from f mem have "f \<in> set fs"
      by blast
    from entry [OF this] fx have "h_id x = toString (dateNow (fst f))"
      by (auto simp add: newItem_def)
    with id have "dateNow (fst f0) = dateNow (fst f)"
      by (simp add: toString_inj)
    with f have "dateNow (fst f0) \<in> (\<lambda>f. dateNow (fst f)) ` set fs'"
      by (rule_tac image_eqI)
    moreover from d have "dateNow (fst f0) \<notin> (\<lambda>f. dateNow (fst f)) ` set fs'"
      unfolding fs by simp
    ultimately show False
      by contradiction
  qed
qed

theorem history_bound_witness:
  "length flows21 = 21 \<and> list_all flowSucceeds flows21 \<and> history initialState = []
   \<and> distinct (map (\<lambda>f. dateNow (fst f)) flows21)
   \<and> length (history (runFlows flows21 initialState)) = 20
   \<and> map Some (history (runFlows flows21 initialState)) = rev (map flowEntry (tl flows21))
   \<and> toString (dateNow (fst (hd flows21))) \<notin> set (map h_id (history (runFlows flows21 initialState)))"
proof -
  have l: "length flows21 = 21"
    by (simp add: flows21_def)
  have ok: "list_all flowSucceeds flows21"
    by (simp add: flows21_def list_all_iff flowSucceeds_def remoteOk_calls)
  have e: "history initialState = []"
    by (simp add: initialState_def)
  have d: "distinct (map (\<lambda>f. dateNow (fst f)) flows21)"
    by (simp add: flows21_def distinct_map comp_def inj_on_def)
  show ?thesis
    using history_bound [of "[]" flows21 initialState] l ok e d by blast
qed

section \<open>Restoring a history entry\<close>

text \<open>
  Claim C10. Selecting a history entry is a pure restore. The handler takes no backend at
  all, and the record of issued calls is left as it was; playback is stopped (the source
  handle is cleared), the active response and the query become the entry's snapshot, the
  log becomes the single restore line, the status is forced to \<open>IDLE\<close> and the
  playback-finished flag is set, whatever the state was before, so also when nothing had
  been played. All other cells (error, history, sidebar, audio context) keep their values.
\<close>

theorem handleHistoryClick_restores:
  "handleHistoryClick item s =
     s\<lparr>currentSource := None,
       results := Some (h_results item),
       query := h_query item,
       logs := [''Restored search results for: '' @ quoted (h_query item)],
       status := IDLE,
       playbackFinished := True\<rparr>
   \<and> remoteCalls (handleHistoryClick item s) = remoteCalls s"
  by (simp add: handleHistoryClick_def stopAudio_def Let_def split: option.splits)

end
